theory Spec2Isabelle
  imports Complex_Main "HOL-Library.Log_Nat" "HOL-Library.AList"
begin

section \<open>Values and exceptions\<close>

text \<open>
  The scoring core of \<open>app.py\<close> works on what \<open>json.loads\<close> returns: dictionaries,
  lists, strings, integers, floats, booleans and \<open>None\<close>. A dictionary is the
  association list of its items and is read with \<open>map_of\<close>. Strings are lists of
  characters with code points below 256. Every exception the code can raise is a value
  of \<open>error\<close>, and a function that can raise returns \<open>error + 'a\<close>.
\<close>

datatype error =
    KeyError string
  | TypeError
  | AttributeError
  | ValueError
  | OverflowError
  | ZeroDivisionError
  | JSONDecodeError
  | RuntimeError

text \<open>
  A Python float is an IEEE 754 binary64 number. Its finite values are kept as the
  rationals they denote; the sign of zero is not kept, since no operation of the
  scoring core can tell \<open>-0.0\<close> from \<open>0.0\<close>.
\<close>

datatype pyfloat = Finite rat | PosInf | NegInf | NaN

datatype json =
    JNull
  | JBool bool
  | JInt int
  | JFloat pyfloat
  | JStr string
  | JArr "json list"
  | JObj "(string \<times> json) list"

datatype pynum = PyInt int | PyFloat pyfloat

definition and_then :: "error + 'a \<Rightarrow> ('a \<Rightarrow> error + 'b) \<Rightarrow> error + 'b" where
  "and_then r f = (case r of Inl e \<Rightarrow> Inl e | Inr v \<Rightarrow> f v)"

section \<open>Binary64 arithmetic\<close>

text \<open>
  Rounding to nearest, ties to even. \<open>ilog2 x\<close> is the exponent \<open>e\<close> with
  \<open>2^e \<le> x < 2^(e+1)\<close> of a positive rational; a binary64 number with that exponent
  is a multiple of \<open>2^(e-52)\<close>, and below \<open>2^(-1022)\<close> (the subnormal range) of
  \<open>2^(-1074)\<close>. A result that rounds to \<open>2^1024\<close> or beyond is an infinity.
\<close>

definition round_half_even :: "rat \<Rightarrow> int" where
  "round_half_even x =
     (let f = \<lfloor>x\<rfloor>; d = x - of_int f
      in if d < 1/2 then f else if 1/2 < d then f + 1 else if even f then f else f + 1)"

definition ilog2 :: "rat \<Rightarrow> int" where
  "ilog2 x = (case quotient_of x of (p, q) \<Rightarrow>
     (let d = bitlen p - bitlen q in if 2 powi d \<le> x then d else d - 1))"

definition quantum :: "rat \<Rightarrow> rat" where
  "quantum x = 2 powi (max (ilog2 \<bar>x\<bar>) (- 1022) - 52)"

definition round_to_grid :: "rat \<Rightarrow> rat" where
  "round_to_grid x = of_int (round_half_even (x / quantum x)) * quantum x"

definition to_double :: "rat \<Rightarrow> pyfloat" where
  "to_double x =
     (let r = round_to_grid x
      in if 2 ^ 1024 \<le> r then PosInf else if r \<le> - (2 ^ 1024) then NegInf else Finite r)"

text \<open>\<open>float(n)\<close> and the conversion of an \<open>int\<close> operand: OverflowError beyond the range.\<close>

definition float_of_int :: "int \<Rightarrow> error + pyfloat" where
  "float_of_int n =
     (case to_double (of_int n) of Finite r \<Rightarrow> Inr (Finite r) | _ \<Rightarrow> Inl OverflowError)"

text \<open>\<open>x * y\<close>, \<open>x + y\<close> and \<open>x / y\<close> on floats.\<close>

fun fmul :: "pyfloat \<Rightarrow> pyfloat \<Rightarrow> pyfloat" where
  "fmul NaN _ = NaN"
| "fmul _ NaN = NaN"
| "fmul (Finite a) (Finite b) = to_double (a * b)"
| "fmul (Finite a) PosInf = (if a = 0 then NaN else if 0 < a then PosInf else NegInf)"
| "fmul (Finite a) NegInf = (if a = 0 then NaN else if 0 < a then NegInf else PosInf)"
| "fmul PosInf (Finite b) = (if b = 0 then NaN else if 0 < b then PosInf else NegInf)"
| "fmul NegInf (Finite b) = (if b = 0 then NaN else if 0 < b then NegInf else PosInf)"
| "fmul PosInf PosInf = PosInf"
| "fmul PosInf NegInf = NegInf"
| "fmul NegInf PosInf = NegInf"
| "fmul NegInf NegInf = PosInf"

fun fadd :: "pyfloat \<Rightarrow> pyfloat \<Rightarrow> pyfloat" where
  "fadd NaN _ = NaN"
| "fadd _ NaN = NaN"
| "fadd (Finite a) (Finite b) = to_double (a + b)"
| "fadd (Finite a) PosInf = PosInf"
| "fadd (Finite a) NegInf = NegInf"
| "fadd PosInf (Finite b) = PosInf"
| "fadd NegInf (Finite b) = NegInf"
| "fadd PosInf PosInf = PosInf"
| "fadd PosInf NegInf = NaN"
| "fadd NegInf PosInf = NaN"
| "fadd NegInf NegInf = NegInf"

fun fdiv :: "pyfloat \<Rightarrow> pyfloat \<Rightarrow> error + pyfloat" where
  "fdiv x (Finite b) =
     (if b = 0 then Inl ZeroDivisionError
      else case x of
        NaN \<Rightarrow> Inr NaN
      | Finite a \<Rightarrow> Inr (to_double (a / b))
      | PosInf \<Rightarrow> Inr (if 0 < b then PosInf else NegInf)
      | NegInf \<Rightarrow> Inr (if 0 < b then NegInf else PosInf))"
| "fdiv NaN _ = Inr NaN"
| "fdiv _ NaN = Inr NaN"
| "fdiv (Finite a) _ = Inr (Finite 0)"
| "fdiv _ _ = Inr NaN"

text \<open>
  \<open>round(x)\<close> with one argument: the nearest integer, ties to even; ValueError on NaN,
  OverflowError on an infinity.
\<close>

fun py_round :: "pyfloat \<Rightarrow> error + int" where
  "py_round (Finite r) = Inr (round_half_even r)"
| "py_round NaN = Inl ValueError"
| "py_round _ = Inl OverflowError"

text \<open>\<open>x >= k\<close> for a float and an integer: exact, and False on NaN.\<close>

fun float_ge_int :: "pyfloat \<Rightarrow> int \<Rightarrow> bool" where
  "float_ge_int (Finite r) k = (of_int k \<le> r)"
| "float_ge_int PosInf k = True"
| "float_ge_int _ k = False"

text \<open>
  \<open>total / n\<close>: on two integers the quotient rounded once, OverflowError when it is
  out of range; with a float on the left the integer is converted first.
\<close>

fun truediv :: "pynum \<Rightarrow> int \<Rightarrow> error + pyfloat" where
  "truediv (PyInt t) n =
     (if n = 0 then Inl ZeroDivisionError
      else case to_double (of_int t / of_int n) of
        Finite r \<Rightarrow> Inr (Finite r)
      | _ \<Rightarrow> Inl OverflowError)"
| "truediv (PyFloat x) n = and_then (float_of_int n) (fdiv x)"

section \<open>Strings\<close>

definition is_space :: "char \<Rightarrow> bool" where
  \<comment> \<open>\<open>str.isspace\<close> on the code points below 256\<close>
  "is_space c = (let n = (of_char c :: nat) in
     (9 \<le> n \<and> n \<le> 13) \<or> (28 \<le> n \<and> n \<le> 32) \<or> n = 133 \<or> n = 160)"

definition strip :: "string \<Rightarrow> string" where
  "strip s = rev (dropWhile is_space (rev (dropWhile is_space s)))"

definition lower_char :: "char \<Rightarrow> char" where
  "lower_char c = (let n = (of_char c :: nat) in
     if (65 \<le> n \<and> n \<le> 90) \<or> (192 \<le> n \<and> n \<le> 222 \<and> n \<noteq> 215) then char_of (n + 32) else c)"

definition lower :: "string \<Rightarrow> string" where
  "lower s = map lower_char s"

text \<open>\<open>s.find(c)\<close> and \<open>s.rfind(c)\<close> for a one-character needle: an index, or -1.\<close>

fun find_char :: "string \<Rightarrow> char \<Rightarrow> int" where
  "find_char [] c = - 1"
| "find_char (x # xs) c = (if x = c then 0 else (let i = find_char xs c in if i < 0 then - 1 else i + 1))"

fun rfind_char :: "string \<Rightarrow> char \<Rightarrow> int" where
  "rfind_char [] c = - 1"
| "rfind_char (x # xs) c =
     (let i = rfind_char xs c in if 0 \<le> i then i + 1 else if x = c then 0 else - 1)"

text \<open>\<open>s[a:b]\<close>: a negative bound counts from the end, and both are clipped to the string.\<close>

definition slice_bound :: "int \<Rightarrow> int \<Rightarrow> nat" where
  "slice_bound n i = nat (if i < 0 then max (i + n) 0 else min i n)"

definition slice :: "string \<Rightarrow> int \<Rightarrow> int \<Rightarrow> string" where
  "slice s a b =
     (let n = int (length s); lo = slice_bound n a; hi = slice_bound n b
      in take (hi - lo) (drop lo s))"

subsection \<open>\<open>float(s)\<close> on a string\<close>

text \<open>
  Blanks around the number are dropped (for \<open>float\<close> these are the code points 9 to 13,
  32, 133 and 160), then comes an optional sign and either \<open>inf\<close>, \<open>infinity\<close> or
  \<open>nan\<close> in any case, or decimal digits with an optional point and an optional
  exponent; a single underscore may stand between two digits. Anything else is a
  ValueError. The decimal value is rounded once to binary64.
\<close>

definition is_float_space :: "char \<Rightarrow> bool" where
  "is_float_space c = (let n = (of_char c :: nat) in
     (9 \<le> n \<and> n \<le> 13) \<or> n = 32 \<or> n = 133 \<or> n = 160)"

definition is_digit :: "char \<Rightarrow> bool" where
  "is_digit c = (let n = (of_char c :: nat) in 48 \<le> n \<and> n \<le> 57)"

definition digit_val :: "char \<Rightarrow> nat" where
  "digit_val c = of_char c - 48"

definition digits_val :: "string \<Rightarrow> nat" where
  "digits_val ds = foldl (\<lambda>a c. 10 * a + digit_val c) 0 ds"

fun more_digits :: "string \<Rightarrow> string \<Rightarrow> string \<times> string" where
  "more_digits acc (c # d # cs) =
     (if is_digit c then more_digits (acc @ [c]) (d # cs)
      else if c = CHR ''_'' \<and> is_digit d then more_digits (acc @ [d]) cs
      else (acc, c # d # cs))"
| "more_digits acc [c] = (if is_digit c then (acc @ [c], []) else (acc, [c]))"
| "more_digits acc [] = (acc, [])"

fun digitpart :: "string \<Rightarrow> string \<times> string" where
  "digitpart (c # cs) = (if is_digit c then more_digits [c] cs else ([], c # cs))"
| "digitpart [] = ([], [])"

fun sign_of :: "string \<Rightarrow> bool \<times> string" where
  "sign_of (c # cs) =
     (if c = CHR ''-'' then (True, cs) else if c = CHR ''+'' then (False, cs) else (False, c # cs))"
| "sign_of [] = (False, [])"

definition exponent_of :: "string \<Rightarrow> int option" where
  "exponent_of s =
     (case s of
        [] \<Rightarrow> Some 0
      | c # cs \<Rightarrow>
          if c = CHR ''e'' \<or> c = CHR ''E'' then
            (case sign_of cs of (neg, r) \<Rightarrow>
               (case digitpart r of (ds, rest) \<Rightarrow>
                  if ds = [] \<or> rest \<noteq> [] then None
                  else Some (if neg then - int (digits_val ds) else int (digits_val ds))))
          else None)"

definition decimal_of :: "string \<Rightarrow> rat option" where
  "decimal_of s =
     (case digitpart s of (ip, r1) \<Rightarrow>
        (case (case r1 of
                 c # cs \<Rightarrow> if c = CHR ''.'' then (True, digitpart cs) else (False, ([], r1))
               | [] \<Rightarrow> (False, ([], []))) of
           (dot, fp, r2) \<Rightarrow>
             if ip = [] \<and> fp = [] then None
             else (case exponent_of r2 of
                     None \<Rightarrow> None
                   | Some e \<Rightarrow>
                       Some (of_nat (digits_val (ip @ fp)) * 10 powi (e - int (length fp))))))"

definition float_of_str :: "string \<Rightarrow> error + pyfloat" where
  "float_of_str s =
     (case sign_of (rev (dropWhile is_float_space (rev (dropWhile is_float_space s)))) of
        (neg, body) \<Rightarrow>
          if lower body = ''inf'' \<or> lower body = ''infinity'' then Inr (if neg then NegInf else PosInf)
          else if lower body = ''nan'' then Inr NaN
          else (case decimal_of body of
                  None \<Rightarrow> Inl ValueError
                | Some q \<Rightarrow> Inr (to_double (if neg then - q else q))))"

section \<open>The scoring core\<close>

text \<open>\<open>d[k]\<close>, \<open>len(v)\<close>, \<open>v.lower()\<close>, \<open>table.get(k, default)\<close>, \<open>d.get(k, default)\<close>, \<open>float(v)\<close>.\<close>

fun subscript :: "json \<Rightarrow> string \<Rightarrow> error + json" where
  "subscript (JObj kvs) k = (case map_of kvs k of None \<Rightarrow> Inl (KeyError k) | Some v \<Rightarrow> Inr v)"
| "subscript _ k = Inl TypeError"

fun py_len :: "json \<Rightarrow> error + int" where
  "py_len (JArr xs) = Inr (int (length xs))"
| "py_len (JStr s) = Inr (int (length s))"
| "py_len (JObj kvs) = Inr (int (length (remdups (map fst kvs))))"
| "py_len _ = Inl TypeError"

fun str_lower :: "json \<Rightarrow> error + string" where
  "str_lower (JStr s) = Inr (lower s)"
| "str_lower _ = Inl AttributeError"

definition table_get :: "(string \<times> int) list \<Rightarrow> string \<Rightarrow> int \<Rightarrow> int" where
  "table_get table k dflt = (case map_of table k of None \<Rightarrow> dflt | Some v \<Rightarrow> v)"

fun dict_get :: "json \<Rightarrow> string \<Rightarrow> json \<Rightarrow> error + json" where
  "dict_get (JObj kvs) k dflt = Inr (case map_of kvs k of None \<Rightarrow> dflt | Some v \<Rightarrow> v)"
| "dict_get _ k dflt = Inl AttributeError"

fun py_float :: "json \<Rightarrow> error + pyfloat" where
  "py_float (JInt n) = float_of_int n"
| "py_float (JFloat x) = Inr x"
| "py_float (JBool b) = Inr (Finite (if b then 1 else 0))"
| "py_float (JStr s) = float_of_str s"
| "py_float _ = Inl TypeError"

definition complexity_scores :: "(string \<times> int) list" where
  "complexity_scores = [(''low'', 10), (''medium'', 20), (''high'', 30), (''unknown'', 0)]"

definition activity_scores :: "(string \<times> int) list" where
  "activity_scores = [(''inactive'', 10), (''moderate'', 20), (''active'', 30), (''unknown'', 0)]"

text \<open>
  \<open>base_score_of\<close> is the first part of \<open>calculate_repo_score\<close>, up to the last
  \<open>base_score +=\<close>; the statements run in the source's order, and the first one that
  raises ends the call.
\<close>

definition base_score_of :: "json \<Rightarrow> error + int" where
  "base_score_of analysis_data =
     and_then (subscript analysis_data ''languages'') (\<lambda>v1.
     and_then (py_len v1) (\<lambda>n1.
     and_then (subscript analysis_data ''tech_stack'') (\<lambda>v2.
     and_then (py_len v2) (\<lambda>n2.
     and_then (subscript analysis_data ''algorithms'') (\<lambda>v3.
     and_then (py_len v3) (\<lambda>n3.
     and_then (subscript analysis_data ''complexity'') (\<lambda>v4.
     and_then (str_lower v4) (\<lambda>k4.
     and_then (subscript analysis_data ''commit_activity'') (\<lambda>v5.
     and_then (str_lower v5) (\<lambda>k5.
       Inr (0 + min (n1 * 2) 10 + min (n2 * 3) 15 + min (n3 * 3) 15
              + table_get complexity_scores k4 0
              + table_get activity_scores k5 0)))))))))))"

text \<open>
  \<open>final_score_of\<close> is the assignment to \<open>final_score\<close>: the integer \<open>base_score\<close> is
  converted for the product with the float \<open>0.6\<close>, and \<open>0.6\<close> and \<open>0.4\<close> are the
  binary64 numbers nearest to 6/10 and 4/10.
\<close>

definition final_score_of :: "int \<Rightarrow> pyfloat \<Rightarrow> error + pyfloat" where
  "final_score_of base_score jd_match_score =
     and_then (float_of_int base_score) (\<lambda>b.
       Inr (fadd (fmul b (to_double (6 / 10))) (fmul jd_match_score (to_double (4 / 10)))))"

definition calculate_repo_score :: "json \<Rightarrow> error + int" where
  "calculate_repo_score analysis_data =
     and_then (base_score_of analysis_data) (\<lambda>base_score.
     and_then (dict_get analysis_data ''jd_match_score'' (JInt 0)) (\<lambda>v.
     and_then (py_float v) (\<lambda>jd_match_score.
     and_then (final_score_of base_score jd_match_score) py_round)))"

definition evaluate_candidate :: "pynum \<Rightarrow> int \<Rightarrow> error + string" where
  "evaluate_candidate total_score num_repos =
     (if num_repos = 0 then Inr ''Unable to evaluate - no repositories found''
      else and_then (truediv total_score num_repos) (\<lambda>avg_score.
        if float_ge_int avg_score 75 then Inr ''Highly Suitable''
        else if float_ge_int avg_score 50 then Inr ''Moderately Suitable''
        else if float_ge_int avg_score 25 then Inr ''Potentially Suitable''
        else Inr ''Not Suitable''))"

section \<open>The scoring rule in the specification's words\<close>

text \<open>
  The specification gives the score as a formula: capped counts, two tiers looked up
  without regard to case, and \<open>round(base_score * 0.6 + jd_match_score * 0.4)\<close>. These
  definitions follow its words; the theorems below compare them with the code.
\<close>

definition eq_ignore_case :: "string \<Rightarrow> string \<Rightarrow> bool" where
  "eq_ignore_case s t = (lower s = lower t)"

definition spec_complexity_points :: "string \<Rightarrow> int" where
  "spec_complexity_points s =
     (if eq_ignore_case s ''low'' then 10
      else if eq_ignore_case s ''medium'' then 20
      else if eq_ignore_case s ''high'' then 30
      else 0)"

definition spec_activity_points :: "string \<Rightarrow> int" where
  "spec_activity_points s =
     (if eq_ignore_case s ''inactive'' then 10
      else if eq_ignore_case s ''moderate'' then 20
      else if eq_ignore_case s ''active'' then 30
      else 0)"

definition spec_base_score :: "nat \<Rightarrow> nat \<Rightarrow> nat \<Rightarrow> string \<Rightarrow> string \<Rightarrow> int" where
  "spec_base_score n_languages n_tech_stack n_algorithms cx act =
     min (2 * int n_languages) 10 + min (3 * int n_tech_stack) 15 + min (3 * int n_algorithms) 15
       + spec_complexity_points cx + spec_activity_points act"

definition spec_score :: "int \<Rightarrow> pyfloat \<Rightarrow> error + int" where
  "spec_score base jd =
     py_round (fadd (fmul (Finite (of_int base)) (to_double (6 / 10))) (fmul jd (to_double (4 / 10))))"

text \<open>The evaluator's thresholds in the specification's words, on the computed average.\<close>

definition spec_label :: "pyfloat \<Rightarrow> string" where
  "spec_label avg =
     (if float_ge_int avg 75 then ''Highly Suitable''
      else if float_ge_int avg 50 then ''Moderately Suitable''
      else if float_ge_int avg 25 then ''Potentially Suitable''
      else ''Not Suitable'')"

text \<open>
  A RepositoryAnalysis with its five scored classification fields present: three lists
  and two strings. The sixth, \<open>jd_match_score\<close>, is named in each theorem.
\<close>

definition has_fields ::
  "(string \<times> json) list \<Rightarrow> json list \<Rightarrow> json list \<Rightarrow> json list \<Rightarrow> string \<Rightarrow> string \<Rightarrow> bool" where
  "has_fields a ls ts gs cx act =
     (map_of a ''languages'' = Some (JArr ls) \<and>
      map_of a ''tech_stack'' = Some (JArr ts) \<and>
      map_of a ''algorithms'' = Some (JArr gs) \<and>
      map_of a ''complexity'' = Some (JStr cx) \<and>
      map_of a ''commit_activity'' = Some (JStr act))"

section \<open>Reading the analyzer's answer\<close>

text \<open>
  \<open>analyze_repo_and_jd_match\<close> from the call of the model on: \<open>outcome\<close> is what
  \<open>llm.invoke\<close> did (the text it returned, or the exception it raised), and \<open>loads\<close>
  is \<open>json.loads\<close>. Whatever is raised inside the \<open>try\<close> leads to the fallback record.
\<close>

definition default_analysis :: json where
  "default_analysis = JObj
     [(''languages'', JArr []),
      (''tech_stack'', JArr []),
      (''algorithms'', JArr []),
      (''complexity'', JStr ''unknown''),
      (''commit_activity'', JStr ''unknown''),
      (''jd_match_score'', JInt 0),
      (''jd_match_reasons'', JArr [])]"

definition json_text :: "string \<Rightarrow> string" where
  "json_text response =
     (let json_start = find_char response CHR ''{'';
          json_end = rfind_char response CHR ''}'' + 1
      in strip (slice response json_start json_end))"

definition analyze_repo_and_jd_match :: "(string \<Rightarrow> error + json) \<Rightarrow> error + string \<Rightarrow> json" where
  "analyze_repo_and_jd_match loads outcome =
     (case outcome of
        Inl e \<Rightarrow> default_analysis
      | Inr response \<Rightarrow>
          (case loads (json_text response) of
             Inl e \<Rightarrow> default_analysis
           | Inr json_data \<Rightarrow> json_data))"

section \<open>Example data\<close>

text \<open>
  The analyses the examples below are run on: the specification's worked scenario, the
  same with one more framework, an analysis with an out-of-range job-match score, one whose
  job-match score is the text of the prompt's placeholder, and one without the field.
\<close>

definition example_analysis :: "(string \<times> json) list" where
  "example_analysis =
     [(''languages'', JArr [JStr ''Python'', JStr ''JS'']),
      (''tech_stack'', JArr [JStr ''Flask'']),
      (''algorithms'', JArr []),
      (''complexity'', JStr ''medium''),
      (''commit_activity'', JStr ''active''),
      (''jd_match_score'', JInt 80),
      (''jd_match_reasons'', JArr [])]"

definition example_analysis_more :: "(string \<times> json) list" where
  "example_analysis_more =
     [(''languages'', JArr [JStr ''Python'', JStr ''JS'']),
      (''tech_stack'', JArr [JStr ''Flask'', JStr ''Redis'']),
      (''algorithms'', JArr []),
      (''complexity'', JStr ''medium''),
      (''commit_activity'', JStr ''active''),
      (''jd_match_score'', JInt 80),
      (''jd_match_reasons'', JArr [])]"

definition out_of_range_analysis :: "(string \<times> json) list" where
  "out_of_range_analysis =
     [(''languages'', JArr []),
      (''tech_stack'', JArr []),
      (''algorithms'', JArr []),
      (''complexity'', JStr ''unknown''),
      (''commit_activity'', JStr ''unknown''),
      (''jd_match_score'', JInt 300),
      (''jd_match_reasons'', JArr [])]"

definition range_text_analysis :: "(string \<times> json) list" where
  "range_text_analysis =
     [(''languages'', JArr [JStr ''Python'', JStr ''JS'']),
      (''tech_stack'', JArr [JStr ''Flask'']),
      (''algorithms'', JArr []),
      (''complexity'', JStr ''medium''),
      (''commit_activity'', JStr ''active''),
      (''jd_match_score'', JStr ''1-100''),
      (''jd_match_reasons'', JArr [])]"

definition no_jd_analysis :: "(string \<times> json) list" where
  "no_jd_analysis =
     [(''languages'', JArr [JStr ''Python'', JStr ''JS'']),
      (''tech_stack'', JArr [JStr ''Flask'']),
      (''algorithms'', JArr []),
      (''complexity'', JStr ''medium''),
      (''commit_activity'', JStr ''active'')]"

text \<open>
  \<open>json.loads\<close> belongs to Python's library and is a parameter of
  \<open>analyze_repo_and_jd_match\<close>. The examples use its values on two texts: an answer
  that leaves out \<open>algorithms\<close>, and the empty text, which it rejects; \<open>loads_sample\<close>
  is not consulted on any other text.
\<close>

definition partial_answer :: string where
  \<open>partial_answer = ''{"languages": ["Python"], "tech_stack": [], "complexity": "high", "commit_activity": "active", "jd_match_score": 70}''\<close>

definition partial_record :: "(string \<times> json) list" where
  "partial_record =
     [(''languages'', JArr [JStr ''Python'']),
      (''tech_stack'', JArr []),
      (''complexity'', JStr ''high''),
      (''commit_activity'', JStr ''active''),
      (''jd_match_score'', JInt 70)]"

definition loads_sample :: "string \<Rightarrow> error + json" where
  "loads_sample s = (if s = partial_answer then Inr (JObj partial_record) else Inl JSONDecodeError)"

definition above_range_analysis :: "(string \<times> json) list" where
  "above_range_analysis =
     [(''languages'', JArr []),
      (''tech_stack'', JArr []),
      (''algorithms'', JArr []),
      (''complexity'', JStr ''unknown''),
      (''commit_activity'', JStr ''unknown''),
      (''jd_match_score'', JInt 120),
      (''jd_match_reasons'', JArr [])]"

definition ill_typed_record :: "(string \<times> json) list" where
  "ill_typed_record = [(''languages'', JInt 5)]"

section \<open>Facts about binary64 rounding\<close>

lemma round_half_even_of_int [simp]: "round_half_even (of_int k) = k"
  by (simp add: round_half_even_def)

lemma round_to_grid_0 [simp]: "round_to_grid 0 = 0"
  using round_half_even_of_int [of 0] by (simp add: round_to_grid_def del: round_half_even_of_int)

lemma to_double_0 [simp]: "to_double 0 = Finite 0"
  by (simp add: to_double_def)

lemma float_of_int_0 [simp]: "float_of_int 0 = Inr (Finite 0)"
  by (simp add: float_of_int_def)

lemma ilog2_bounds:
  assumes "0 < x"
  shows "2 powi (ilog2 x) \<le> x \<and> x < 2 powi (ilog2 x + 1)"
proof -
  obtain p q where pq: "quotient_of x = (p, q)" by (cases "quotient_of x")
  have q: "0 < q" using pq by (rule quotient_of_denom_pos)
  have x: "x = of_int p / of_int q" using pq by (rule quotient_of_div)
  have p: "0 < p" using assms q x by (simp add: zero_less_divide_iff)
  define d where "d = bitlen p - bitlen q"
  have bp: "2 ^ nat (bitlen p - 1) \<le> p" "p < 2 ^ nat (bitlen p)"
    using bitlen_bounds [OF p] by auto
  have bq: "2 ^ nat (bitlen q - 1) \<le> q" "q < 2 ^ nat (bitlen q)"
    using bitlen_bounds [OF q] by auto
  have bp1: "1 \<le> bitlen p" using p bitlen_eq_zero_iff [of p] bitlen_nonneg [of p] by linarith
  have bq1: "1 \<le> bitlen q" using q bitlen_eq_zero_iff [of q] bitlen_nonneg [of q] by linarith
  have P1: "(2::rat) powi (bitlen p - 1) \<le> of_int p"
  proof -
    have "(of_int (2 ^ nat (bitlen p - 1)) :: rat) \<le> of_int p" using bp(1) by (simp only: of_int_le_iff)
    then show ?thesis using bp1 by (simp add: power_int_nonneg_exp)
  qed
  have P2: "of_int p < (2::rat) powi (bitlen p)"
  proof -
    have "(of_int p :: rat) < of_int (2 ^ nat (bitlen p))" using bp(2) by (simp only: of_int_less_iff)
    then show ?thesis using bp1 by (simp add: power_int_nonneg_exp)
  qed
  have Q1: "(2::rat) powi (bitlen q - 1) \<le> of_int q"
  proof -
    have "(of_int (2 ^ nat (bitlen q - 1)) :: rat) \<le> of_int q" using bq(1) by (simp only: of_int_le_iff)
    then show ?thesis using bq1 by (simp add: power_int_nonneg_exp)
  qed
  have Q2: "of_int q < (2::rat) powi (bitlen q)"
  proof -
    have "(of_int q :: rat) < of_int (2 ^ nat (bitlen q))" using bq(2) by (simp only: of_int_less_iff)
    then show ?thesis using bq1 by (simp add: power_int_nonneg_exp)
  qed
  have qpos: "(0::rat) < of_int q" using q by simp
  have lo: "(2::rat) powi (d - 1) \<le> x"
  proof -
    have "(2::rat) powi (d - 1) * of_int q \<le> 2 powi (d - 1) * 2 powi (bitlen q)"
      using Q2 by (intro mult_left_mono) auto
    also have "\<dots> = 2 powi (bitlen p - 1)" by (simp add: d_def flip: power_int_add)
    also have "\<dots> \<le> of_int p" by (rule P1)
    finally show ?thesis using qpos by (simp add: x pos_le_divide_eq)
  qed
  have hi: "x < (2::rat) powi (d + 1)"
  proof -
    have "of_int p < (2::rat) powi (bitlen p)" by (rule P2)
    also have "\<dots> = 2 powi (d + 1) * 2 powi (bitlen q - 1)" by (simp add: d_def flip: power_int_add)
    also have "\<dots> \<le> 2 powi (d + 1) * of_int q" using Q1 by (intro mult_left_mono) auto
    finally show ?thesis using qpos by (simp add: x pos_divide_less_eq)
  qed
  show ?thesis
  proof (cases "2 powi d \<le> x")
    case True
    then have "ilog2 x = d" by (simp add: ilog2_def pq d_def)
    then show ?thesis using True hi by simp
  next
    case False
    then have "ilog2 x = d - 1" by (simp add: ilog2_def pq d_def)
    then show ?thesis using False lo by simp
  qed
qed


lemma pow2_le_iff: "(2::rat) powi m \<le> 2 powi n \<longleftrightarrow> m \<le> n"
proof
  assume h: "(2::rat) powi m \<le> 2 powi n"
  show "m \<le> n"
  proof (rule ccontr)
    assume "\<not> m \<le> n"
    then have "n < m" by simp
    then have "(2::rat) powi n < 2 powi m" by (intro power_int_strict_increasing) auto
    with h show False by simp
  qed
next
  assume "m \<le> n"
  then show "(2::rat) powi m \<le> 2 powi n" by (intro power_int_increasing) auto
qed

lemma pow2_less_iff: "(2::rat) powi m < 2 powi n \<longleftrightarrow> m < n"
  using pow2_le_iff [of n m] by (simp add: not_le [symmetric])

lemma pow2_pos: "(0::rat) < 2 powi n"
  by simp

lemma ilog2_unique:
  assumes "2 powi e \<le> x" "x < 2 powi (e + 1)"
  shows "ilog2 x = e"
proof -
  have pos: "0 < x" using assms(1) pow2_pos [of e] by linarith
  note b = ilog2_bounds [OF pos]
  have "2 powi e < (2::rat) powi (ilog2 x + 1)" using assms(1) b by linarith
  then have 1: "e < ilog2 x + 1" by (simp only: pow2_less_iff)
  have "2 powi (ilog2 x) < (2::rat) powi (e + 1)" using assms(2) b by linarith
  then have 2: "ilog2 x < e + 1" by (simp only: pow2_less_iff)
  show ?thesis using 1 2 by linarith
qed

lemma ilog2_mono:
  assumes "0 < x" "x \<le> y"
  shows "ilog2 x \<le> ilog2 y"
proof -
  have "2 powi (ilog2 x) < (2::rat) powi (ilog2 y + 1)"
    using ilog2_bounds [OF assms(1)] ilog2_bounds [of y] assms by linarith
  then have "ilog2 x < ilog2 y + 1" by (simp only: pow2_less_iff)
  then show ?thesis by simp
qed



lemma round_half_even_bounds: "\<lfloor>x\<rfloor> \<le> round_half_even x \<and> round_half_even x \<le> \<lfloor>x\<rfloor> + 1"
  by (simp add: round_half_even_def Let_def)

lemma round_half_even_mono:
  assumes "x \<le> y"
  shows "round_half_even x \<le> round_half_even y"
proof (cases "\<lfloor>x\<rfloor> = \<lfloor>y\<rfloor>")
  case True
  then show ?thesis using assms by (auto simp add: round_half_even_def Let_def)
next
  case False
  then have "\<lfloor>x\<rfloor> + 1 \<le> \<lfloor>y\<rfloor>" using floor_mono [OF assms] by linarith
  then show ?thesis using round_half_even_bounds [of x] round_half_even_bounds [of y] by linarith
qed

lemma round_half_even_ge: "of_int k \<le> x \<Longrightarrow> k \<le> round_half_even x"
  using round_half_even_mono [of "of_int k" x] by simp

lemma round_half_even_le: "x \<le> of_int k \<Longrightarrow> round_half_even x \<le> k"
  using round_half_even_mono [of x "of_int k"] by simp

lemma round_half_even_eqI:
  assumes "of_int m - 1/2 < x" "x < of_int m + 1/2"
  shows "round_half_even x = m"
proof -
  have "\<lfloor>x\<rfloor> = m \<or> \<lfloor>x\<rfloor> = m - 1" using assms by linarith
  then show ?thesis
  proof
    assume f: "\<lfloor>x\<rfloor> = m"
    then show ?thesis using assms by (simp add: round_half_even_def Let_def)
  next
    assume f: "\<lfloor>x\<rfloor> = m - 1"
    then show ?thesis using assms by (simp add: round_half_even_def Let_def)
  qed
qed

lemma round_half_even_minus: "round_half_even (- x) = - round_half_even x"
proof (cases "x = of_int \<lfloor>x\<rfloor>")
  case True
  then obtain k where "x = of_int k" ..
  then have "- x = of_int (- k)" by simp
  then show ?thesis using \<open>x = of_int k\<close> by (simp only: round_half_even_of_int)
next
  case False
  have "of_int \<lfloor>x\<rfloor> \<le> x" by simp
  with False have lt: "of_int \<lfloor>x\<rfloor> < x" by (auto simp add: less_le)
  have fl: "\<lfloor>- x\<rfloor> = - \<lfloor>x\<rfloor> - 1"
  proof (rule floor_unique)
    have "x < of_int \<lfloor>x\<rfloor> + 1" by linarith
    then show "of_int (- \<lfloor>x\<rfloor> - 1) \<le> - x" by simp
    show "- x < of_int (- \<lfloor>x\<rfloor> - 1) + 1" using lt by simp
  qed
  show ?thesis using lt by (auto simp add: round_half_even_def Let_def fl)
qed



lemma quantum_pos: "0 < quantum x"
  by (simp add: quantum_def)

lemma quantum_minus: "quantum (- x) = quantum x"
  by (simp add: quantum_def)

lemma round_to_grid_minus: "round_to_grid (- x) = - round_to_grid x"
  by (simp add: round_to_grid_def quantum_minus round_half_even_minus)

lemma round_to_grid_nonneg:
  assumes "0 \<le> x"
  shows "0 \<le> round_to_grid x"
proof -
  have "of_int 0 \<le> x / quantum x" using assms quantum_pos [of x] by simp
  then have "0 \<le> round_half_even (x / quantum x)" by (rule round_half_even_ge)
  then show ?thesis using quantum_pos [of x] by (simp add: round_to_grid_def)
qed

lemma pow2_split: "(2::rat) powi (a + b) = 2 powi a * 2 powi b"
  by (rule power_int_add) simp

lemma pow2_53: "2 ^ 53 * (2::rat) powi (E - 52) = 2 powi (E + 1)"
proof -
  have "(2::rat) powi (E + 1) = 2 powi (int 53 + (E - 52))"
    by (rule arg_cong [where f = "\<lambda>k. 2 powi k"]) simp
  also have "\<dots> = 2 powi (int 53) * 2 powi (E - 52)" by (rule pow2_split)
  also have "\<dots> = 2 ^ 53 * 2 powi (E - 52)" by (simp only: power_int_of_nat)
  finally show ?thesis by simp
qed

lemma pow2_52: "2 ^ 52 * (2::rat) powi (E - 52) = 2 powi E"
proof -
  have "(2::rat) powi E = 2 powi (int 52 + (E - 52))"
    by (rule arg_cong [where f = "\<lambda>k. 2 powi k"]) simp
  also have "\<dots> = 2 powi (int 52) * 2 powi (E - 52)" by (rule pow2_split)
  also have "\<dots> = 2 ^ 52 * 2 powi (E - 52)" by (simp only: power_int_of_nat)
  finally show ?thesis by simp
qed

lemma round_to_grid_upper:
  assumes "0 < x"
  shows "round_to_grid x \<le> 2 powi (max (ilog2 x) (- 1022) + 1)"
proof -
  define E where "E = max (ilog2 x) (- 1022)"
  have q: "quantum x = 2 powi (E - 52)" using assms by (simp add: quantum_def E_def)
  have "x < 2 powi (ilog2 x + 1)" using ilog2_bounds [OF assms] by simp
  also have "\<dots> \<le> 2 powi (E + 1)" by (simp only: pow2_le_iff) (simp add: E_def)
  also have "\<dots> = 2 ^ 53 * 2 powi (E - 52)" by (simp only: pow2_53)
  finally have "x / quantum x \<le> of_int (2 ^ 53)"
    using quantum_pos [of x] by (simp add: q pos_divide_le_eq)
  then have "round_half_even (x / quantum x) \<le> 2 ^ 53" by (rule round_half_even_le)
  then have "(of_int (round_half_even (x / quantum x)) :: rat) \<le> of_int (2 ^ 53)"
    by (simp only: of_int_le_iff)
  then have "round_to_grid x \<le> of_int (2 ^ 53) * quantum x"
    unfolding round_to_grid_def using quantum_pos [of x] by (intro mult_right_mono) auto
  also have "\<dots> = 2 ^ 53 * 2 powi (E - 52)" by (simp add: q)
  also have "\<dots> = 2 powi (E + 1)" by (simp only: pow2_53)
  finally show ?thesis by (simp add: E_def)
qed

lemma round_to_grid_lower:
  assumes "0 < x" "- 1022 \<le> ilog2 x"
  shows "2 powi (ilog2 x) \<le> round_to_grid x"
proof -
  define E where "E = ilog2 x"
  have q: "quantum x = 2 powi (E - 52)" using assms by (simp add: quantum_def E_def max_def)
  have "2 ^ 52 * 2 powi (E - 52) = (2::rat) powi E" by (simp only: pow2_52)
  also have "\<dots> \<le> x" using ilog2_bounds [OF assms(1)] by (simp add: E_def)
  finally have "of_int (2 ^ 52) \<le> x / quantum x"
    using quantum_pos [of x] by (simp add: q pos_le_divide_eq)
  then have "2 ^ 52 \<le> round_half_even (x / quantum x)" by (rule round_half_even_ge)
  then have "(of_int (2 ^ 52) :: rat) \<le> of_int (round_half_even (x / quantum x))"
    by (simp only: of_int_le_iff)
  then have "of_int (2 ^ 52) * quantum x \<le> round_to_grid x"
    unfolding round_to_grid_def using quantum_pos [of x] by (intro mult_right_mono) auto
  moreover have "of_int (2 ^ 52) * quantum x = 2 powi E"
    using pow2_52 [of E] by (simp add: q)
  ultimately show ?thesis by (simp add: E_def)
qed

lemma round_to_grid_mono_pos:
  assumes "0 < x" "x \<le> y"
  shows "round_to_grid x \<le> round_to_grid y"
proof -
  have ypos: "0 < y" using assms by simp
  define Ex where "Ex = max (ilog2 x) (- 1022)"
  define Ey where "Ey = max (ilog2 y) (- 1022)"
  have le: "Ex \<le> Ey" using ilog2_mono [OF assms] by (simp add: Ex_def Ey_def)
  have qx: "quantum x = 2 powi (Ex - 52)" using assms by (simp add: quantum_def Ex_def)
  have qy: "quantum y = 2 powi (Ey - 52)" using ypos by (simp add: quantum_def Ey_def)
  show ?thesis
  proof (cases "Ex = Ey")
    case True
    then have same: "quantum y = quantum x" by (simp add: qx qy)
    have "x / quantum x \<le> y / quantum x"
      using assms(2) quantum_pos [of x] by (simp add: divide_right_mono)
    then have "round_half_even (x / quantum x) \<le> round_half_even (y / quantum x)"
      by (rule round_half_even_mono)
    then have "(of_int (round_half_even (x / quantum x)) :: rat)
        \<le> of_int (round_half_even (y / quantum x))"
      by (simp only: of_int_le_iff)
    then show ?thesis
      unfolding round_to_grid_def same using quantum_pos [of x] by (intro mult_right_mono) auto
  next
    case False
    then have lt: "Ex < Ey" using le by simp
    then have ey: "Ey = ilog2 y" "- 1022 \<le> ilog2 y" by (auto simp add: Ex_def Ey_def)
    have "round_to_grid x \<le> 2 powi (Ex + 1)"
      using round_to_grid_upper [OF assms(1)] by (simp add: Ex_def)
    also have "\<dots> \<le> 2 powi (ilog2 y)" using lt ey by (simp only: pow2_le_iff)
    also have "\<dots> \<le> round_to_grid y" using ypos ey(2) by (rule round_to_grid_lower)
    finally show ?thesis .
  qed
qed

lemma round_to_grid_mono:
  assumes "x \<le> y"
  shows "round_to_grid x \<le> round_to_grid y"
proof -
  consider "0 < x" | "y < 0" | "x \<le> 0" "0 \<le> y" by linarith
  then show ?thesis
  proof cases
    case 1
    then show ?thesis using assms by (rule round_to_grid_mono_pos)
  next
    case 2
    then have "0 < - y" "- y \<le> - x" using assms by auto
    then have "round_to_grid (- y) \<le> round_to_grid (- x)" by (rule round_to_grid_mono_pos)
    then show ?thesis by (simp add: round_to_grid_minus)
  next
    case 3
    have "0 \<le> round_to_grid (- x)" using 3(1) by (intro round_to_grid_nonneg) simp
    then have "round_to_grid x \<le> 0" by (simp add: round_to_grid_minus)
    also have "0 \<le> round_to_grid y" using 3(2) by (rule round_to_grid_nonneg)
    finally show ?thesis .
  qed
qed

text \<open>Evaluating a rounding from its exponent and its rounded mantissa.\<close>

lemma round_to_grid_eqI:
  assumes "2 powi e \<le> \<bar>x\<bar>" "\<bar>x\<bar> < 2 powi (e + 1)" "- 1022 \<le> e"
    and "round_half_even (x / 2 powi (e - 52)) = m"
  shows "round_to_grid x = of_int m * 2 powi (e - 52)"
proof -
  have "ilog2 \<bar>x\<bar> = e" using assms(1,2) by (rule ilog2_unique)
  then have "quantum x = 2 powi (e - 52)" using assms(3) by (simp add: quantum_def max_def)
  then show ?thesis using assms(4) by (simp add: round_to_grid_def)
qed

lemma to_double_eqI:
  assumes "2 powi e \<le> \<bar>x\<bar>" "\<bar>x\<bar> < 2 powi (e + 1)" "- 1022 \<le> e"
    and "of_int m - 1/2 < x / 2 powi (e - 52)" "x / 2 powi (e - 52) < of_int m + 1/2"
    and "r = of_int m * 2 powi (e - 52)" "r < 2 ^ 1024" "- (2 ^ 1024) < r"
  shows "to_double x = Finite r"
proof -
  have "round_half_even (x / 2 powi (e - 52)) = m" using assms(4,5) by (rule round_half_even_eqI)
  with assms(1-3) have "round_to_grid x = of_int m * 2 powi (e - 52)" by (rule round_to_grid_eqI)
  then show ?thesis using assms(6-8) by (simp add: to_double_def)
qed

lemma c06: "to_double (6 / 10) = Finite (5404319552844595 / 9007199254740992)"
  by (rule to_double_eqI [where e = "- 1" and m = 5404319552844595]) simp_all

lemma c04: "to_double (4 / 10) = Finite (3602879701896397 / 9007199254740992)"
  by (rule to_double_eqI [where e = "- 2" and m = 7205759403792794]) simp_all

lemma to_double_Finite:
  "to_double x = Finite r \<longleftrightarrow> r = round_to_grid x \<and> r < 2 ^ 1024 \<and> - (2 ^ 1024) < r"
  by (auto simp add: to_double_def Let_def)

lemma to_double_not_NaN [simp]: "to_double x \<noteq> NaN"
  by (simp add: to_double_def Let_def)

lemma round_to_grid_of_nat_pos:
  assumes "0 < n" "n < 2 ^ 53"
  shows "round_to_grid (of_int n) = of_int n"
proof -
  define x :: rat where "x = of_int n"
  have xpos: "0 < x" using assms(1) by (simp add: x_def)
  define e where "e = ilog2 x"
  note b = ilog2_bounds [OF xpos, folded e_def]
  have "(2::rat) powi 0 \<le> x" using assms(1) by (simp add: x_def)
  then have "(2::rat) powi 0 < 2 powi (e + 1)" using b by linarith
  then have "0 < e + 1" by (simp only: pow2_less_iff)
  then have e0: "0 \<le> e" by simp
  have "x < 2 powi 53" using assms(2) by (simp add: x_def)
  then have "(2::rat) powi e < 2 powi 53" using b by linarith
  then have "e < 53" by (simp only: pow2_less_iff)
  then have e52: "e \<le> 52" by simp
  define k where "k = nat (52 - e)"
  have q: "quantum x = 2 powi (e - 52)" using xpos e0 by (simp add: quantum_def e_def)
  have "(2::rat) powi (e - 52) * 2 powi (int k) = 2 powi 0"
    using e52 by (simp add: k_def flip: pow2_split)
  then have inv: "(2::rat) powi (e - 52) * 2 ^ k = 1" by simp
  have "x / quantum x = x * 2 ^ k"
    using inv by (simp add: q divide_eq_eq mult.assoc mult.commute)
  also have "\<dots> = of_int (n * 2 ^ k)" by (simp add: x_def)
  finally have "round_half_even (x / quantum x) = n * 2 ^ k" by (simp only: round_half_even_of_int)
  then have "round_to_grid x = of_int (n * 2 ^ k) * 2 powi (e - 52)"
    by (simp add: round_to_grid_def q)
  also have "\<dots> = x * (2 powi (e - 52) * 2 ^ k)" by (simp add: x_def)
  also have "\<dots> = x" by (simp only: inv)
  finally show ?thesis by (simp add: x_def)
qed

lemma round_to_grid_of_int:
  assumes "\<bar>n\<bar> < 2 ^ 53"
  shows "round_to_grid (of_int n) = of_int n"
proof -
  consider "n = 0" | "0 < n" | "0 < - n" by linarith
  then show ?thesis
  proof cases
    case 1 then show ?thesis by simp
  next
    case 2 then show ?thesis using assms by (intro round_to_grid_of_nat_pos) auto
  next
    case 3
    then have "round_to_grid (of_int (- n)) = of_int (- n)"
      using assms by (intro round_to_grid_of_nat_pos) auto
    then show ?thesis by (simp add: round_to_grid_minus)
  qed
qed

lemma to_double_of_int:
  assumes "\<bar>n\<bar> < 2 ^ 53"
  shows "to_double (of_int n) = Finite (of_int n)"
proof -
  have "(of_int \<bar>n\<bar> :: rat) < of_int (2 ^ 53)" using assms by (simp only: of_int_less_iff)
  then have "\<bar>of_int n :: rat\<bar> < 2 ^ 1024" by simp
  then show ?thesis
    using round_to_grid_of_int [OF assms] by (simp add: to_double_Finite abs_less_iff)
qed

lemma float_of_int_small:
  assumes "\<bar>n\<bar> < 2 ^ 53"
  shows "float_of_int n = Inr (Finite (of_int n))"
  by (simp add: float_of_int_def to_double_of_int [OF assms])

text \<open>The largest finite binary64 number.\<close>

lemma round_to_grid_max:
  assumes "round_to_grid x < 2 ^ 1024"
  shows "round_to_grid x \<le> 2 ^ 1024 - 2 ^ 971"
proof (cases "0 < x")
  case False
  then have "0 \<le> round_to_grid (- x)" by (intro round_to_grid_nonneg) simp
  then have "round_to_grid x \<le> 0" by (simp add: round_to_grid_minus)
  then show ?thesis by simp
next
  case True
  define e where "e = ilog2 x"
  consider "e \<le> 1022" | "e = 1023" | "1024 \<le> e" by linarith
  then show ?thesis
  proof cases
    case 1
    have "round_to_grid x \<le> 2 powi (max e (- 1022) + 1)"
      using round_to_grid_upper [OF True] by (simp add: e_def)
    also have "\<dots> \<le> 2 powi 1023" using 1 by (simp only: pow2_le_iff)
    finally show ?thesis by simp
  next
    case 2
    have q: "quantum x = 2 ^ 971" using True 2 by (simp add: quantum_def e_def)
    define m where "m = round_half_even (x / quantum x)"
    have r: "round_to_grid x = of_int m * 2 ^ 971" by (simp add: round_to_grid_def m_def q)
    have "of_int m * (2::rat) ^ 971 < 2 ^ 53 * 2 ^ 971" using assms r by simp
    then have "(of_int m :: rat) < 2 ^ 53" by (simp only: mult_less_cancel_right_pos zero_less_power zero_less_numeral)
    then have "(of_int m :: rat) < of_int (2 ^ 53)" by simp
    then have "m < 2 ^ 53" by (simp only: of_int_less_iff)
    then have "m \<le> 2 ^ 53 - 1" by simp
    then have "(of_int m :: rat) \<le> of_int (2 ^ 53 - 1)" by (simp only: of_int_le_iff)
    then have "of_int m * (2::rat) ^ 971 \<le> of_int (2 ^ 53 - 1) * 2 ^ 971"
      by (intro mult_right_mono) auto
    then show ?thesis by (simp add: r)
  next
    case 3
    have "(2::rat) powi 1024 \<le> 2 powi e" using 3 by (simp only: pow2_le_iff)
    also have "\<dots> \<le> round_to_grid x"
      using round_to_grid_lower [OF True] 3 by (simp add: e_def)
    finally show ?thesis using assms by simp
  qed
qed

lemma round_to_grid_top: "round_to_grid (2 ^ 1024 - 2 ^ 971 + 60) = 2 ^ 1024 - 2 ^ 971"
proof -
  have "round_half_even ((2 ^ 1024 - 2 ^ 971 + 60) / 2 powi (1023 - 52)) = 2 ^ 53 - 1"
    by (rule round_half_even_eqI) simp_all
  then have "round_to_grid (2 ^ 1024 - 2 ^ 971 + 60) = of_int (2 ^ 53 - 1) * 2 powi (1023 - 52)"
    by (intro round_to_grid_eqI) simp_all
  then show ?thesis by simp
qed

section \<open>Facts about the scoring engine\<close>

lemma and_then_simps [simp]:
  "and_then (Inl e) f = Inl e"
  "and_then (Inr v) f = f v"
  by (simp_all add: and_then_def)

lemma and_then_cong [cong]:
  "r = r' \<Longrightarrow> (\<And>v. r' = Inr v \<Longrightarrow> f v = g v) \<Longrightarrow> and_then r f = and_then r' g"
  by (cases r') simp_all

lemma and_then_Inr_iff:
  "and_then r f = Inr y \<longleftrightarrow> (\<exists>v. r = Inr v \<and> f v = Inr y)"
  by (cases r) simp_all

lemma lower_tier_keys:
  "lower ''low'' = ''low''" "lower ''medium'' = ''medium''" "lower ''high'' = ''high''"
  "lower ''inactive'' = ''inactive''" "lower ''moderate'' = ''moderate''" "lower ''active'' = ''active''"
  by (simp_all add: lower_def lower_char_def)

lemma complexity_table: "table_get complexity_scores (lower s) 0 = spec_complexity_points s"
  by (simp add: table_get_def complexity_scores_def spec_complexity_points_def eq_ignore_case_def
      lower_tier_keys)

lemma activity_table: "table_get activity_scores (lower s) 0 = spec_activity_points s"
  by (simp add: table_get_def activity_scores_def spec_activity_points_def eq_ignore_case_def
      lower_tier_keys)

lemma complexity_points_range: "0 \<le> table_get complexity_scores k 0 \<and> table_get complexity_scores k 0 \<le> 30"
  by (simp add: table_get_def complexity_scores_def)

lemma activity_points_range: "0 \<le> table_get activity_scores k 0 \<and> table_get activity_scores k 0 \<le> 30"
  by (simp add: table_get_def activity_scores_def)

lemma py_len_nonneg: "py_len v = Inr n \<Longrightarrow> 0 \<le> n"
  by (cases v) auto

lemma base_score_of_range:
  assumes "base_score_of d = Inr b"
  shows "0 \<le> b \<and> b \<le> 100"
proof -
  from assms obtain v1 v2 v3 n1 n2 n3 k4 k5 where
    l: "py_len v1 = Inr n1" "py_len v2 = Inr n2" "py_len v3 = Inr n3"
    and b: "b = 0 + min (n1 * 2) 10 + min (n2 * 3) 15 + min (n3 * 3) 15
              + table_get complexity_scores k4 0 + table_get activity_scores k5 0"
    unfolding base_score_of_def and_then_Inr_iff by auto
  have n: "0 \<le> n1" "0 \<le> n2" "0 \<le> n3" using l by (auto dest: py_len_nonneg)
  show ?thesis
    using n complexity_points_range [of k4] activity_points_range [of k5] unfolding b by linarith
qed

lemma base_score_of_fields:
  assumes "has_fields a ls ts gs cx act"
  shows "base_score_of (JObj a) = Inr (spec_base_score (length ls) (length ts) (length gs) cx act)"
  using assms
  by (simp add: has_fields_def base_score_of_def spec_base_score_def complexity_table activity_table
      mult.commute)

lemma double_0_6 [simp]:
  "to_double (3 / 5) = Finite (5404319552844595 / 9007199254740992)"
  using c06 by simp

lemma double_0_4 [simp]:
  "to_double (2 / 5) = Finite (3602879701896397 / 9007199254740992)"
  using c04 by simp

lemma round_to_grid_60: "round_to_grid (100 * (5404319552844595 / 9007199254740992)) = 60"
proof -
  have "round_half_even (100 * (5404319552844595 / 9007199254740992) / 2 powi (5 - 52))
      = 8444249301319680"
    by (rule round_half_even_eqI) simp_all
  then have "round_to_grid (100 * (5404319552844595 / 9007199254740992))
      = of_int 8444249301319680 * 2 powi (5 - 52)"
    by (intro round_to_grid_eqI) simp_all
  then show ?thesis by simp
qed

lemma round_to_grid_40: "round_to_grid (100 * (3602879701896397 / 9007199254740992)) = 40"
proof -
  have "round_half_even (100 * (3602879701896397 / 9007199254740992) / 2 powi (5 - 52))
      = 5629499534213120"
    by (rule round_half_even_eqI) simp_all
  then have "round_to_grid (100 * (3602879701896397 / 9007199254740992))
      = of_int 5629499534213120 * 2 powi (5 - 52)"
    by (intro round_to_grid_eqI) simp_all
  then show ?thesis by simp
qed

lemma base_part:
  assumes "0 \<le> b" "b \<le> 100"
  shows "fmul (Finite (of_int b)) (to_double (6 / 10))
           = Finite (round_to_grid (of_int b * (5404319552844595 / 9007199254740992)))
         \<and> 0 \<le> round_to_grid (of_int b * (5404319552844595 / 9007199254740992))
         \<and> round_to_grid (of_int b * (5404319552844595 / 9007199254740992)) \<le> 60"
proof -
  define c :: rat where "c = 5404319552844595 / 9007199254740992"
  have cpos: "0 \<le> c" by (simp add: c_def)
  have b01: "(0::rat) \<le> of_int b" "(of_int b :: rat) \<le> 100" using assms by simp_all
  have lo: "0 \<le> round_to_grid (of_int b * c)"
    using b01 cpos by (intro round_to_grid_nonneg) simp
  have "of_int b * c \<le> 100 * c" using b01 cpos by (intro mult_right_mono) auto
  then have "round_to_grid (of_int b * c) \<le> round_to_grid (100 * c)" by (rule round_to_grid_mono)
  then have hi: "round_to_grid (of_int b * c) \<le> 60" using round_to_grid_60 by (simp add: c_def)
  have "to_double (of_int b * c) = Finite (round_to_grid (of_int b * c))"
    using lo hi by (simp add: to_double_Finite)
  then show ?thesis using lo hi by (simp add: c06 c_def)
qed

lemma fmul_Finite_right:
  assumes "fmul x (Finite c) = Finite j"
  shows "\<exists>r. x = Finite r \<and> j = round_to_grid (r * c) \<and> j < 2 ^ 1024 \<and> - (2 ^ 1024) < j"
  using assms by (cases x) (auto simp add: to_double_Finite split: if_splits)

lemma sum_finite:
  assumes "0 \<le> \<beta>" "\<beta> \<le> 60" "j = round_to_grid q" "j < 2 ^ 1024" "- (2 ^ 1024) < j"
  shows "to_double (\<beta> + j) = Finite (round_to_grid (\<beta> + j))"
proof -
  define M :: rat where "M = 2 ^ 1024 - 2 ^ 971"
  have M: "round_to_grid (M + 60) = M" "M < 2 ^ 1024" "0 \<le> M"
    using round_to_grid_top by (simp_all add: M_def)
  have jhi: "j \<le> M" using assms(3,4) round_to_grid_max [of q] by (simp add: M_def)
  have "round_to_grid (- q) < 2 ^ 1024" using assms(3,5) by (simp add: round_to_grid_minus)
  then have "round_to_grid (- q) \<le> M" using round_to_grid_max [of "- q"] by (simp add: M_def)
  then have jlo: "- M \<le> j" using assms(3) by (simp add: round_to_grid_minus)
  have "round_to_grid (\<beta> + j) \<le> round_to_grid (M + 60)"
    using assms(2) jhi by (intro round_to_grid_mono) simp
  then have hi: "round_to_grid (\<beta> + j) < 2 ^ 1024" using M by simp
  have "round_to_grid M \<le> round_to_grid (M + 60)" by (intro round_to_grid_mono) simp
  then have "- M \<le> round_to_grid (- M)" using M by (simp add: round_to_grid_minus)
  also have "\<dots> \<le> round_to_grid (\<beta> + j)" using assms(1) jlo by (intro round_to_grid_mono) simp
  finally have lo: "- (2 ^ 1024) < round_to_grid (\<beta> + j)" using M by simp
  show ?thesis using lo hi by (simp add: to_double_Finite)
qed

lemma spec_score_Finite:
  assumes "0 \<le> b" "b \<le> 100" "fmul jd (to_double (4 / 10)) = Finite j"
  shows "spec_score b jd = Inr (round_half_even (round_to_grid
           (round_to_grid (of_int b * (5404319552844595 / 9007199254740992)) + j)))"
proof -
  note bp = base_part [OF assms(1,2)]
  from assms(3) obtain r where j: "j = round_to_grid (r * (3602879701896397 / 9007199254740992))"
    "j < 2 ^ 1024" "- (2 ^ 1024) < j"
    unfolding c04 by (auto dest: fmul_Finite_right)
  have "to_double (round_to_grid (of_int b * (5404319552844595 / 9007199254740992)) + j)
      = Finite (round_to_grid (round_to_grid (of_int b * (5404319552844595 / 9007199254740992)) + j))"
    using bp j by (intro sum_finite) auto
  then show ?thesis using bp assms(3) by (simp add: spec_score_def)
qed

lemma spec_score_Inr_jd:
  assumes "0 \<le> b" "b \<le> 100" "spec_score b jd = Inr s"
  shows "\<exists>j. fmul jd (to_double (4 / 10)) = Finite j"
proof (cases "fmul jd (to_double (4 / 10))")
  case (Finite j) then show ?thesis by simp
next
  case PosInf then show ?thesis using assms(3) base_part [OF assms(1,2)] by (simp add: spec_score_def)
next
  case NegInf then show ?thesis using assms(3) base_part [OF assms(1,2)] by (simp add: spec_score_def)
next
  case NaN then show ?thesis using assms(3) base_part [OF assms(1,2)] by (simp add: spec_score_def)
qed

lemma spec_score_mono:
  assumes "0 \<le> b" "b \<le> b'" "b' \<le> 100"
    and "fmul jd (to_double (4 / 10)) = Finite j"
  shows "\<exists>s s'. spec_score b jd = Inr s \<and> spec_score b' jd = Inr s' \<and> s \<le> s'"
proof -
  define c :: rat where "c = 5404319552844595 / 9007199254740992"
  have b: "0 \<le> b" "b \<le> 100" and b': "0 \<le> b'" "b' \<le> 100" using assms by simp_all
  have "(of_int b :: rat) * c \<le> of_int b' * c"
    using assms(2) by (intro mult_right_mono) (simp_all add: c_def)
  then have "round_to_grid (of_int b * c) + j \<le> round_to_grid (of_int b' * c) + j"
    using round_to_grid_mono by simp
  then have "round_half_even (round_to_grid (round_to_grid (of_int b * c) + j))
      \<le> round_half_even (round_to_grid (round_to_grid (of_int b' * c) + j))"
    by (intro round_half_even_mono round_to_grid_mono)
  then show ?thesis
    using spec_score_Finite [OF b assms(4)] spec_score_Finite [OF b' assms(4)] by (simp add: c_def)
qed

lemma final_score_of_small:
  assumes "0 \<le> b" "b \<le> 100"
  shows "and_then (final_score_of b jd) py_round = spec_score b jd"
proof -
  have "\<bar>b\<bar> < 2 ^ 53" using assms by simp
  then show ?thesis by (simp add: final_score_of_def float_of_int_small spec_score_def)
qed

lemma calculate_repo_score_eq:
  assumes "base_score_of (JObj a) = Inr b"
  shows "calculate_repo_score (JObj a)
    = and_then (py_float (case map_of a ''jd_match_score'' of None \<Rightarrow> JInt 0 | Some v \<Rightarrow> v))
        (spec_score b)"
  using base_score_of_range [OF assms] assms
  by (simp add: calculate_repo_score_def final_score_of_small)

lemma round_half_even_tie_down:
  assumes "x = of_int m + 1/2" "even m"
  shows "round_half_even x = m"
proof -
  have "\<lfloor>x\<rfloor> = m" unfolding assms(1) by (rule floor_unique) simp_all
  then show ?thesis using assms by (simp add: round_half_even_def Let_def)
qed

lemma round_half_even_tie_up:
  assumes "x = of_int m - 1/2" "even m"
  shows "round_half_even x = m"
proof -
  have "\<lfloor>x\<rfloor> = m - 1" unfolding assms(1) by (rule floor_unique) simp_all
  then show ?thesis using assms by (simp add: round_half_even_def Let_def)
qed

lemma to_double_eqI':
  assumes "2 powi e \<le> \<bar>x\<bar>" "\<bar>x\<bar> < 2 powi (e + 1)" "- 1022 \<le> e"
    and "round_half_even (x / 2 powi (e - 52)) = m"
    and "r = of_int m * 2 powi (e - 52)" "r < 2 ^ 1024" "- (2 ^ 1024) < r"
  shows "to_double x = Finite r"
proof -
  from assms(1-4) have "round_to_grid x = of_int m * 2 powi (e - 52)" by (rule round_to_grid_eqI)
  then show ?thesis using assms(5-7) by (simp add: to_double_def)
qed

text \<open>The specification's worked example: 57 * 0.6 + 80 * 0.4 rounds to 66.\<close>

lemma spec_score_57_80: "spec_score 57 (Finite 80) = Inr 66"
proof -
  have a: "to_double (308046214512141915 / 9007199254740992)
      = Finite (4813222101752217 / 140737488355328)"
    by (rule to_double_eqI [where e = 5 and m = 4813222101752217]) simp_all
  have b: "to_double (18014398509481985 / 562949953421312) = Finite 32"
    by (rule to_double_eqI [where e = 5 and m = 4503599627370496]) simp_all
  have "round_half_even (9316821729122713 / 140737488355328 / 2 powi (6 - 52)) = 4658410864561356"
    by (rule round_half_even_tie_down) simp_all
  then have c: "to_double (9316821729122713 / 140737488355328)
      = Finite (1164602716140339 / 17592186044416)"
    by (rule to_double_eqI' [where e = 6 and m = 4658410864561356, rotated 3]) simp_all
  have d: "round_half_even (1164602716140339 / 17592186044416) = 66"
    by (rule round_half_even_eqI) simp_all
  show ?thesis by (simp add: spec_score_def a b c d)
qed

lemma example_fields:
  "has_fields example_analysis [JStr ''Python'', JStr ''JS''] [JStr ''Flask''] [] ''medium'' ''active''"
  by (simp add: has_fields_def example_analysis_def)

lemma example_base: "spec_base_score (Suc (Suc 0)) (Suc 0) 0 ''medium'' ''active'' = 57"
  by (simp add: spec_base_score_def spec_complexity_points_def spec_activity_points_def
      eq_ignore_case_def lower_def lower_char_def)

lemma jd_part:
  assumes "0 \<le> r" "r \<le> 100"
  shows "fmul (Finite r) (to_double (4 / 10))
           = Finite (round_to_grid (r * (3602879701896397 / 9007199254740992)))
         \<and> 0 \<le> round_to_grid (r * (3602879701896397 / 9007199254740992))
         \<and> round_to_grid (r * (3602879701896397 / 9007199254740992)) \<le> 40"
proof -
  define c :: rat where "c = 3602879701896397 / 9007199254740992"
  have cpos: "0 \<le> c" by (simp add: c_def)
  have lo: "0 \<le> round_to_grid (r * c)" using assms cpos by (intro round_to_grid_nonneg) simp
  have "r * c \<le> 100 * c" using assms cpos by (intro mult_right_mono) auto
  then have "round_to_grid (r * c) \<le> round_to_grid (100 * c)" by (rule round_to_grid_mono)
  then have hi: "round_to_grid (r * c) \<le> 40" using round_to_grid_40 by (simp add: c_def)
  have "to_double (r * c) = Finite (round_to_grid (r * c))"
    using lo hi by (simp add: to_double_Finite)
  then show ?thesis using lo hi by (simp add: c_def)
qed

lemma spec_score_range:
  assumes "0 \<le> b" "b \<le> 100" "0 \<le> r" "r \<le> 100"
  shows "\<exists>s. spec_score b (Finite r) = Inr s \<and> 0 \<le> s \<and> s \<le> 100"
proof -
  define \<beta> where "\<beta> = round_to_grid (of_int b * (5404319552844595 / 9007199254740992))"
  define j where "j = round_to_grid (r * (3602879701896397 / 9007199254740992))"
  have \<beta>: "0 \<le> \<beta>" "\<beta> \<le> 60" using base_part [OF assms(1,2)] by (simp_all add: \<beta>_def)
  have j: "fmul (Finite r) (to_double (4 / 10)) = Finite j" "0 \<le> j" "j \<le> 40"
    using jd_part [OF assms(3,4)] by (simp_all add: j_def)
  have s: "spec_score b (Finite r) = Inr (round_half_even (round_to_grid (\<beta> + j)))"
    using spec_score_Finite [OF assms(1,2) j(1)] by (simp add: \<beta>_def)
  have "0 \<le> round_to_grid (\<beta> + j)" using \<beta> j by (intro round_to_grid_nonneg) simp
  then have "of_int 0 \<le> round_to_grid (\<beta> + j)" by simp
  then have lo: "0 \<le> round_half_even (round_to_grid (\<beta> + j))" by (rule round_half_even_ge)
  have "round_to_grid (\<beta> + j) \<le> round_to_grid (of_int 100)"
    using \<beta> j by (intro round_to_grid_mono) simp
  also have "\<dots> = of_int 100" by (rule round_to_grid_of_int) simp
  finally have hi: "round_half_even (round_to_grid (\<beta> + j)) \<le> 100" by (rule round_half_even_le)
  show ?thesis using s lo hi by simp
qed

lemma spec_points_range:
  "0 \<le> spec_complexity_points s \<and> spec_complexity_points s \<le> 30"
  "0 \<le> spec_activity_points s \<and> spec_activity_points s \<le> 30"
  by (simp_all add: spec_complexity_points_def spec_activity_points_def)

lemma spec_base_score_range:
  "0 \<le> spec_base_score n1 n2 n3 cx act \<and> spec_base_score n1 n2 n3 cx act \<le> 100"
  using spec_points_range [of cx] spec_points_range [of act]
  unfolding spec_base_score_def by linarith

lemma subscript_Inr_iff: "subscript (JObj a) k = Inr v \<longleftrightarrow> map_of a k = Some v"
  by (simp split: option.splits)

lemma base_score_of_tech_stack:
  assumes "map_of a ''tech_stack'' = Some (JArr ts)"
    and "map_of a' = (map_of a)(''tech_stack'' \<mapsto> JArr (ts @ [t]))"
    and "base_score_of (JObj a) = Inr b"
  shows "\<exists>b'. base_score_of (JObj a') = Inr b' \<and> b \<le> b'"
proof -
  from assms(3) obtain v1 n1 v2 n2 v3 n3 v4 k4 v5 k5 where
    f: "map_of a ''languages'' = Some v1" "py_len v1 = Inr n1"
       "map_of a ''tech_stack'' = Some v2" "py_len v2 = Inr n2"
       "map_of a ''algorithms'' = Some v3" "py_len v3 = Inr n3"
       "map_of a ''complexity'' = Some v4" "str_lower v4 = Inr k4"
       "map_of a ''commit_activity'' = Some v5" "str_lower v5 = Inr k5"
    and b: "b = 0 + min (n1 * 2) 10 + min (n2 * 3) 15 + min (n3 * 3) 15
              + table_get complexity_scores k4 0 + table_get activity_scores k5 0"
    unfolding base_score_of_def and_then_Inr_iff subscript_Inr_iff by auto
  have n2: "n2 = int (length ts)" using f(3,4) assms(1) by auto
  have "base_score_of (JObj a') = Inr (0 + min (n1 * 2) 10 + min ((n2 + 1) * 3) 15 + min (n3 * 3) 15
              + table_get complexity_scores k4 0 + table_get activity_scores k5 0)"
    using f n2 by (simp add: base_score_of_def assms(2))
  then show ?thesis unfolding b by auto
qed

lemma example_score: "calculate_repo_score (JObj example_analysis) = Inr 66"
  using calculate_repo_score_eq [OF base_score_of_fields [OF example_fields]]
  by (simp add: example_analysis_def example_base float_of_int_small spec_score_57_80)

lemma float_of_str_range_text: "float_of_str ''1-100'' = Inl ValueError"
  by (simp add: float_of_str_def is_float_space_def lower_def lower_char_def decimal_of_def
      is_digit_def exponent_of_def)

lemma float_of_str_error: "float_of_str s = Inl e \<Longrightarrow> e = ValueError"
  by (auto simp add: float_of_str_def split: prod.splits if_splits option.splits)

lemma unknown_base: "spec_base_score 0 0 0 ''unknown'' ''unknown'' = 0"
  by (simp add: spec_base_score_def spec_complexity_points_def spec_activity_points_def
      eq_ignore_case_def lower_def lower_char_def)

lemma spec_score_0_300: "spec_score 0 (Finite 300) = Inr 120"
proof -
  have a: "to_double (270215977642229775 / 2251799813685248) = Finite 120"
    by (rule to_double_eqI [where e = 6 and m = 8444249301319680]) simp_all
  have b: "to_double 120 = Finite 120" using to_double_of_int [of 120] by simp
  have c: "round_half_even 120 = 120" using round_half_even_of_int [of 120] by simp
  show ?thesis by (simp add: spec_score_def a b c)
qed

lemma spec_score_100_300: "spec_score 100 (Finite 300) = Inr 180"
proof -
  have a: "to_double (270215977642229775 / 2251799813685248) = Finite 120"
    by (rule to_double_eqI [where e = 6 and m = 8444249301319680]) simp_all
  have a': "to_double (135107988821114875 / 2251799813685248) = Finite 60"
    by (rule to_double_eqI [where e = 5 and m = 8444249301319680]) simp_all
  have b: "to_double 180 = Finite 180" using to_double_of_int [of 180] by simp
  have c: "round_half_even 180 = 180" using round_half_even_of_int [of 180] by simp
  show ?thesis by (simp add: spec_score_def a a' b c)
qed

lemma out_of_range_score: "calculate_repo_score (JObj out_of_range_analysis) = Inr 120"
proof -
  have "has_fields out_of_range_analysis [] [] [] ''unknown'' ''unknown''"
    by (simp add: has_fields_def out_of_range_analysis_def)
  from calculate_repo_score_eq [OF base_score_of_fields [OF this]] show ?thesis
    by (simp add: out_of_range_analysis_def unknown_base float_of_int_small spec_score_0_300)
qed

lemma spec_score_57_0: "spec_score 57 (Finite 0) = Inr 34"
proof -
  have a: "to_double (308046214512141915 / 9007199254740992)
      = Finite (4813222101752217 / 140737488355328)"
    by (rule to_double_eqI [where e = 5 and m = 4813222101752217]) simp_all
  have b: "to_double (4813222101752217 / 140737488355328)
      = Finite (4813222101752217 / 140737488355328)"
    by (rule to_double_eqI [where e = 5 and m = 4813222101752217]) simp_all
  have c: "round_half_even (4813222101752217 / 140737488355328) = 34"
    by (rule round_half_even_eqI) simp_all
  show ?thesis by (simp add: spec_score_def a b c)
qed

lemma range_text_fields:
  "has_fields range_text_analysis [JStr ''Python'', JStr ''JS''] [JStr ''Flask''] [] ''medium'' ''active''"
  by (simp add: has_fields_def range_text_analysis_def)

lemma no_jd_fields:
  "has_fields no_jd_analysis [JStr ''Python'', JStr ''JS''] [JStr ''Flask''] [] ''medium'' ''active''"
  by (simp add: has_fields_def no_jd_analysis_def)

lemma range_text_score: "calculate_repo_score (JObj range_text_analysis) = Inl ValueError"
  using calculate_repo_score_eq [OF base_score_of_fields [OF range_text_fields]]
  by (simp add: range_text_analysis_def float_of_str_range_text)

lemma spec_score_mono':
  assumes "0 \<le> b" "b \<le> b'" "b' \<le> 100" "spec_score b jd = Inr s"
  shows "\<exists>s'. spec_score b' jd = Inr s' \<and> s \<le> s'"
proof -
  have b: "0 \<le> b" "b \<le> 100" using assms by simp_all
  from spec_score_Inr_jd [OF b assms(4)] obtain j where "fmul jd (to_double (4 / 10)) = Finite j" ..
  from spec_score_mono [OF assms(1-3) this] assms(4) show ?thesis by auto
qed

lemma spec_score_mono'':
  assumes "0 \<le> b" "b \<le> b'" "b' \<le> 100" "spec_score b' jd = Inr s'"
  shows "\<exists>s. spec_score b jd = Inr s \<and> s \<le> s'"
proof -
  have b': "0 \<le> b'" "b' \<le> 100" using assms by simp_all
  from spec_score_Inr_jd [OF b' assms(4)] obtain j where "fmul jd (to_double (4 / 10)) = Finite j" ..
  from spec_score_mono [OF assms(1-3) this] assms(4) show ?thesis by auto
qed

section \<open>Facts about the candidate evaluator\<close>

lemma evaluate_candidate_eq:
  "n \<noteq> 0 \<Longrightarrow> evaluate_candidate t n = and_then (truediv t n) (\<lambda>avg. Inr (spec_label avg))"
  by (cases "truediv t n") (simp_all add: evaluate_candidate_def spec_label_def)

lemma truediv_multiple:
  assumes "0 < n" "\<bar>k\<bar> < 2 ^ 53"
  shows "truediv (PyInt (k * n)) n = Inr (Finite (of_int k))"
proof -
  have "(of_int (k * n) :: rat) / of_int n = of_int k" using assms(1) by simp
  then show ?thesis using assms(1) to_double_of_int [OF assms(2)] by simp
qed

lemma round_to_grid_pow2_1023: "round_to_grid (2 ^ 1023) = 2 ^ 1023"
proof -
  have "round_half_even (2 ^ 1023 / 2 powi (1023 - 52)) = 2 ^ 52"
    by (rule round_half_even_eqI) simp_all
  then have "round_to_grid (2 ^ 1023) = of_int (2 ^ 52) * 2 powi (1023 - 52)"
    by (intro round_to_grid_eqI) simp_all
  then show ?thesis by simp
qed

lemma truediv_int_returns:
  assumes "0 < n" "\<bar>t\<bar> \<le> 2 ^ 1023"
  shows "truediv (PyInt t) n = Inr (Finite (round_to_grid (of_int t / of_int n)))"
proof -
  define x :: rat where "x = of_int t / of_int n"
  have n1: "(1::rat) \<le> of_int n" using assms(1) by simp
  have "\<bar>x\<bar> = of_int \<bar>t\<bar> / of_int n" using assms(1) by (simp add: x_def)
  also have "\<dots> \<le> of_int \<bar>t\<bar> / 1" using n1 by (intro divide_left_mono) auto
  also have "\<dots> \<le> of_int (2 ^ 1023)" using assms(2) by (simp only: div_by_1 of_int_le_iff)
  finally have ax: "\<bar>x\<bar> \<le> 2 ^ 1023" by simp
  then have "round_to_grid x \<le> round_to_grid (2 ^ 1023)" by (intro round_to_grid_mono) simp
  then have hi: "round_to_grid x < 2 ^ 1024" using round_to_grid_pow2_1023 by simp
  have "round_to_grid (- x) \<le> round_to_grid (2 ^ 1023)" using ax by (intro round_to_grid_mono) simp
  then have lo: "- (2 ^ 1024) < round_to_grid x"
    using round_to_grid_pow2_1023 by (simp add: round_to_grid_minus)
  have "to_double x = Finite (round_to_grid x)" using lo hi by (simp add: to_double_Finite)
  then show ?thesis using assms(1) by (simp add: x_def)
qed

text \<open>
  Just below each threshold lies a binary64 number, so for up to \<open>2^46\<close> repositories
  the rounded quotient of two integers is on the same side of the threshold as the exact one.
\<close>

lemma below_75: "round_to_grid (5277655813324799 / 70368744177664) = 5277655813324799 / 70368744177664"
proof -
  have "round_half_even (5277655813324799 / 70368744177664 / 2 powi (6 - 52)) = 5277655813324799"
    by (rule round_half_even_eqI) simp_all
  then have "round_to_grid (5277655813324799 / 70368744177664)
      = of_int 5277655813324799 * 2 powi (6 - 52)"
    by (intro round_to_grid_eqI) simp_all
  then show ?thesis by simp
qed

lemma below_50: "round_to_grid (3518437208883199 / 70368744177664) = 3518437208883199 / 70368744177664"
proof -
  have "round_half_even (3518437208883199 / 70368744177664 / 2 powi (5 - 52)) = 7036874417766398"
    by (rule round_half_even_eqI) simp_all
  then have "round_to_grid (3518437208883199 / 70368744177664)
      = of_int 7036874417766398 * 2 powi (5 - 52)"
    by (intro round_to_grid_eqI) simp_all
  then show ?thesis by simp
qed

lemma below_25: "round_to_grid (1759218604441599 / 70368744177664) = 1759218604441599 / 70368744177664"
proof -
  have "round_half_even (1759218604441599 / 70368744177664 / 2 powi (4 - 52)) = 7036874417766396"
    by (rule round_half_even_eqI) simp_all
  then have "round_to_grid (1759218604441599 / 70368744177664)
      = of_int 7036874417766396 * 2 powi (4 - 52)"
    by (intro round_to_grid_eqI) simp_all
  then show ?thesis by simp
qed

lemma threshold_exact:
  assumes "0 < n" "n \<le> 2 ^ 46" "\<bar>k\<bar> < 2 ^ 53"
    and below: "round_to_grid (of_int k - 1 / 2 ^ 46) = of_int k - 1 / 2 ^ 46"
  shows "of_int k \<le> round_to_grid (of_int t / of_int n) \<longleftrightarrow> k * n \<le> t"
proof
  assume "k * n \<le> t"
  then have "(of_int (k * n) :: rat) \<le> of_int t" by (simp only: of_int_le_iff)
  then have "(of_int k :: rat) \<le> of_int t / of_int n"
    using assms(1) by (simp add: pos_le_divide_eq)
  then have "round_to_grid (of_int k) \<le> round_to_grid (of_int t / of_int n)"
    by (rule round_to_grid_mono)
  then show "of_int k \<le> round_to_grid (of_int t / of_int n)"
    using round_to_grid_of_int [OF assms(3)] by simp
next
  assume ge: "of_int k \<le> round_to_grid (of_int t / of_int n)"
  show "k * n \<le> t"
  proof (rule ccontr)
    assume "\<not> k * n \<le> t"
    then have "t + 1 \<le> k * n" by simp
    then have "(of_int (t + 1) :: rat) \<le> of_int (k * n)" by (simp only: of_int_le_iff)
    then have "(of_int t :: rat) / of_int n + 1 / of_int n \<le> of_int k"
      using assms(1) by (simp add: field_simps)
    moreover have "(1::rat) / 2 ^ 46 \<le> 1 / of_int n"
    proof -
      have "(of_int n :: rat) \<le> of_int (2 ^ 46)" using assms(2) by (simp only: of_int_le_iff)
      then show ?thesis using assms(1) by (intro divide_left_mono) auto
    qed
    ultimately have "(of_int t :: rat) / of_int n \<le> of_int k - 1 / 2 ^ 46" by linarith
    then have "round_to_grid (of_int t / of_int n) \<le> round_to_grid (of_int k - 1 / 2 ^ 46)"
      by (rule round_to_grid_mono)
    then have "round_to_grid (of_int t / of_int n) < of_int k" using below by simp
    with ge show False by simp
  qed
qed

lemma evaluate_int_exact:
  assumes "0 < n" "n \<le> 2 ^ 46" "\<bar>t\<bar> \<le> 2 ^ 1023"
  shows "evaluate_candidate (PyInt t) n =
     Inr (if 75 * n \<le> t then ''Highly Suitable''
          else if 50 * n \<le> t then ''Moderately Suitable''
          else if 25 * n \<le> t then ''Potentially Suitable''
          else ''Not Suitable'')"
proof -
  have 75: "of_int 75 \<le> round_to_grid (of_int t / of_int n) \<longleftrightarrow> 75 * n \<le> t"
    using below_75 by (intro threshold_exact assms) simp_all
  have 50: "of_int 50 \<le> round_to_grid (of_int t / of_int n) \<longleftrightarrow> 50 * n \<le> t"
    using below_50 by (intro threshold_exact assms) simp_all
  have 25: "of_int 25 \<le> round_to_grid (of_int t / of_int n) \<longleftrightarrow> 25 * n \<le> t"
    using below_25 by (intro threshold_exact assms) simp_all
  have "evaluate_candidate (PyInt t) n
      = Inr (spec_label (Finite (round_to_grid (of_int t / of_int n))))"
    using assms(1) truediv_int_returns [OF assms(1,3)] by (simp add: evaluate_candidate_eq)
  then show ?thesis using 75 50 25 by (simp add: spec_label_def)
qed

lemma truediv_374_9: "truediv (PyFloat (Finite (3297655274025779 / 8796093022208))) 5
    = Inr (Finite (2638124219220623 / 35184372088832))"
proof -
  have "to_double (3297655274025779 / 43980465111040) = Finite (2638124219220623 / 35184372088832)"
    by (rule to_double_eqI [where e = 6 and m = 5276248438441246]) simp_all
  then show ?thesis by (simp add: float_of_int_small)
qed

lemma float_374_9: "to_double (3749 / 10) = Finite (3297655274025779 / 8796093022208)"
  by (rule to_double_eqI [where e = 8 and m = 6595310548051558]) simp_all

section \<open>Facts about the answer text\<close>

lemma find_char_absent: "c \<notin> set s \<Longrightarrow> find_char s c = - 1"
  by (induction s) auto

lemma find_char_first: "c \<notin> set pre \<Longrightarrow> find_char (pre @ c # rest) c = int (length pre)"
  by (induction pre) (auto simp add: Let_def)

lemma rfind_char_absent: "c \<notin> set s \<Longrightarrow> rfind_char s c = - 1"
  by (induction s) (auto simp add: Let_def)

lemma rfind_char_last: "c \<notin> set post \<Longrightarrow> rfind_char (xs @ c # post) c = int (length xs)"
  by (induction xs) (auto simp add: Let_def rfind_char_absent)

lemma slice_inside:
  assumes "a \<le> b" "b \<le> length s"
  shows "slice s (int a) (int b) = take (b - a) (drop a s)"
  using assms by (simp add: slice_def slice_bound_def Let_def min_def)

lemma strip_braces: "strip (CHR ''{'' # mid @ [CHR ''}'']) = CHR ''{'' # mid @ [CHR ''}'']"
  by (simp add: strip_def is_space_def)

lemma json_text_braces:
  assumes "CHR ''{'' \<notin> set pre" "CHR ''}'' \<notin> set post"
  shows "json_text (pre @ CHR ''{'' # mid @ CHR ''}'' # post) = CHR ''{'' # mid @ [CHR ''}'']"
proof -
  define s where "s = pre @ CHR ''{'' # mid @ CHR ''}'' # post"
  have f: "find_char s CHR ''{'' = int (length pre)"
    unfolding s_def using assms(1) by (rule find_char_first)
  have "rfind_char ((pre @ CHR ''{'' # mid) @ CHR ''}'' # post) CHR ''}''
      = int (length (pre @ CHR ''{'' # mid))"
    using assms(2) by (rule rfind_char_last)
  then have r: "rfind_char s CHR ''}'' + 1 = int (length pre + length mid + 2)"
    by (simp add: s_def)
  have "slice s (int (length pre)) (int (length pre + length mid + 2))
      = take (length pre + length mid + 2 - length pre) (drop (length pre) s)"
    by (rule slice_inside) (simp_all add: s_def)
  also have "\<dots> = CHR ''{'' # mid @ [CHR ''}'']" by (simp add: s_def)
  finally show ?thesis
    unfolding s_def [symmetric] json_text_def Let_def f r by (simp only: strip_braces)
qed

lemma json_text_partial_answer: "json_text partial_answer = partial_answer"
proof -
  have "json_text ([] @ CHR ''{'' # butlast (tl partial_answer) @ CHR ''}'' # [])
      = CHR ''{'' # butlast (tl partial_answer) @ [CHR ''}'']"
    by (rule json_text_braces) simp_all
  moreover have "CHR ''{'' # butlast (tl partial_answer) @ [CHR ''}''] = partial_answer"
    by (simp add: partial_answer_def)
  ultimately show ?thesis by simp
qed

lemma partial_record_score: "calculate_repo_score (JObj partial_record) = Inl (KeyError ''algorithms'')"
  by (simp add: calculate_repo_score_def base_score_of_def partial_record_def)

section \<open>Facts about \<open>float\<close> on digit strings\<close>

lemma more_digits_all:
  assumes "list_all is_digit ds"
    and "rest = [] \<or> (\<not> is_digit (hd rest) \<and> hd rest \<noteq> CHR ''_'')"
  shows "more_digits acc (ds @ rest) = (acc @ ds, rest)"
  using assms
proof (induction ds arbitrary: acc)
  case Nil
  then show ?case
  proof (cases rest)
    case Nil then show ?thesis by simp
  next
    case (Cons c cs)
    then show ?thesis using Nil.prems by (cases cs) auto
  qed
next
  case (Cons x xs)
  show ?case
  proof (cases "xs @ rest")
    case Nil
    then show ?thesis using Cons.prems by simp
  next
    case (Cons d cs)
    have "more_digits acc (x # d # cs) = more_digits (acc @ [x]) (d # cs)"
      using Cons.prems by simp
    also have "\<dots> = more_digits (acc @ [x]) (xs @ rest)" by (simp add: Cons)
    also have "\<dots> = ((acc @ [x]) @ xs, rest)"
      using Cons.prems by (intro Cons.IH) auto
    finally show ?thesis by (simp add: Cons [symmetric])
  qed
qed

lemma digitpart_all:
  assumes "list_all is_digit ds"
    and "rest = [] \<or> (\<not> is_digit (hd rest) \<and> hd rest \<noteq> CHR ''_'')"
  shows "digitpart (ds @ rest) = (ds, rest)"
proof (cases ds)
  case Nil
  then show ?thesis using assms(2) by (cases rest) auto
next
  case (Cons x xs)
  then show ?thesis using assms more_digits_all [of xs rest "[x]"] by simp
qed

lemma digit_facts:
  assumes "is_digit c"
  shows "\<not> is_float_space c" "lower_char c = c" "c \<noteq> CHR ''-''" "c \<noteq> CHR ''+''"
    "c \<noteq> CHR ''i''" "c \<noteq> CHR ''n''" "c \<noteq> CHR ''.''" "c \<noteq> CHR ''_''"
  using assms by (auto simp add: is_digit_def is_float_space_def lower_char_def Let_def)

lemma point_facts: "\<not> is_float_space CHR ''.''" "\<not> is_digit CHR ''.''"
  by (simp_all add: is_float_space_def is_digit_def)

lemma float_of_str_body:
  assumes "s = d # tl s" "is_digit d" "\<not> is_float_space (last s)" "decimal_of s = Some q"
  shows "float_of_str s = Inr (to_double q)"
proof -
  note df = digit_facts [OF assms(2)]
  have s: "s \<noteq> []" using assms(1) by auto
  have front: "dropWhile is_float_space s = s" using assms(1) df(1) by (cases s) auto
  have "dropWhile is_float_space (rev s) = rev s"
    using assms(3) s by (cases "rev s") (auto simp add: last_rev [symmetric] simp del: last_rev)
  then have strip: "rev (dropWhile is_float_space (rev (dropWhile is_float_space s))) = s"
    by (simp add: front)
  have sign: "sign_of s = (False, s)" using assms(1) df(3,4) by (cases s) auto
  have "lower s = d # lower (tl s)" using assms(1) df(2) by (cases s) (auto simp add: lower_def)
  then have low: "lower s \<noteq> ''inf''" "lower s \<noteq> ''infinity''" "lower s \<noteq> ''nan''"
    using df(5,6) by auto
  show ?thesis by (simp add: float_of_str_def strip sign low assms(4))
qed

lemma decimal_of_digits:
  assumes "ds \<noteq> []" "list_all is_digit ds"
  shows "decimal_of ds = Some (of_nat (digits_val ds))"
proof -
  have "digitpart (ds @ []) = (ds, [])" using assms(2) by (intro digitpart_all) simp_all
  then show ?thesis using assms(1) by (simp add: decimal_of_def exponent_of_def)
qed

lemma decimal_of_point:
  assumes "ds \<noteq> []" "list_all is_digit ds" "list_all is_digit fs"
  shows "decimal_of (ds @ CHR ''.'' # fs) = Some (of_nat (digits_val (ds @ fs)) / 10 ^ length fs)"
proof -
  have 1: "digitpart (ds @ CHR ''.'' # fs) = (ds, CHR ''.'' # fs)"
    using assms(2) by (intro digitpart_all) (simp_all add: point_facts)
  have "digitpart (fs @ []) = (fs, [])" using assms(3) by (intro digitpart_all) simp_all
  then have 2: "digitpart fs = (fs, [])" by simp
  show ?thesis
    using assms(1) by (simp add: decimal_of_def 1 2 exponent_of_def power_int_minus divide_inverse)
qed

lemma float_of_str_digits:
  assumes "ds \<noteq> []" "list_all is_digit ds"
  shows "float_of_str ds = Inr (to_double (of_nat (digits_val ds)))"
proof -
  obtain d r where ds: "ds = d # r" using assms(1) by (cases ds) auto
  have d: "is_digit d" using assms(2) ds by simp
  have "is_digit (last ds)" using assms by (simp add: list_all_iff)
  then have l: "\<not> is_float_space (last ds)" by (rule digit_facts)
  show ?thesis
    by (rule float_of_str_body [OF _ d l decimal_of_digits [OF assms]]) (simp add: ds)
qed

lemma float_of_str_point:
  assumes "ds \<noteq> []" "list_all is_digit ds" "list_all is_digit fs"
  shows "float_of_str (ds @ CHR ''.'' # fs)
    = Inr (to_double (of_nat (digits_val (ds @ fs)) / 10 ^ length fs))"
proof -
  obtain d r where ds: "ds = d # r" using assms(1) by (cases ds) auto
  have d: "is_digit d" using assms(2) ds by simp
  have "last (ds @ CHR ''.'' # fs) = CHR ''.'' \<or> is_digit (last (ds @ CHR ''.'' # fs))"
    using assms(3) by (cases "fs = []") (auto simp add: list_all_iff)
  then have l: "\<not> is_float_space (last (ds @ CHR ''.'' # fs))"
    using point_facts(1) digit_facts(1) by metis
  show ?thesis
    by (rule float_of_str_body [OF _ d l decimal_of_point [OF assms]]) (simp add: ds)
qed

lemma float_of_int_spec_score:
  assumes "0 \<le> b" "b \<le> 100"
  shows "and_then (float_of_int n) (spec_score b) = spec_score b (to_double (of_int n))"
proof (cases "to_double (of_int n :: rat)")
  case (Finite r) then show ?thesis by (simp add: float_of_int_def)
next
  case PosInf
  then show ?thesis using base_part [OF assms] by (simp add: float_of_int_def spec_score_def)
next
  case NegInf
  then show ?thesis using base_part [OF assms] by (simp add: float_of_int_def spec_score_def)
next
  case NaN then show ?thesis by simp
qed

lemma spec_score_0_120: "spec_score 0 (Finite 120) = Inr 48"
proof -
  have a: "to_double (54043195528445955 / 1125899906842624) = Finite 48"
    by (rule to_double_eqI [where e = 5 and m = 6755399441055744]) simp_all
  have b: "to_double 48 = Finite 48" using to_double_of_int [of 48] by simp
  have c: "round_half_even 48 = 48" using round_half_even_of_int [of 48] by simp
  show ?thesis by (simp add: spec_score_def a b c)
qed

lemma spec_score_100_120: "spec_score 100 (Finite 120) = Inr 108"
proof -
  have a: "to_double (54043195528445955 / 1125899906842624) = Finite 48"
    by (rule to_double_eqI [where e = 5 and m = 6755399441055744]) simp_all
  have a': "to_double (135107988821114875 / 2251799813685248) = Finite 60"
    by (rule to_double_eqI [where e = 5 and m = 8444249301319680]) simp_all
  have b: "to_double 108 = Finite 108" using to_double_of_int [of 108] by simp
  have c: "round_half_even 108 = 108" using round_half_even_of_int [of 108] by simp
  show ?thesis by (simp add: spec_score_def a a' b c)
qed

lemma above_range_score: "calculate_repo_score (JObj above_range_analysis) = Inr 48"
proof -
  have "has_fields above_range_analysis [] [] [] ''unknown'' ''unknown''"
    by (simp add: has_fields_def above_range_analysis_def)
  from calculate_repo_score_eq [OF base_score_of_fields [OF this]] show ?thesis
    by (simp add: above_range_analysis_def unknown_base float_of_int_small spec_score_0_120)
qed

lemma has_fields_update_jd:
  "has_fields a ls ts gs cx act \<Longrightarrow> has_fields (AList.update ''jd_match_score'' v a) ls ts gs cx act"
  by (simp add: has_fields_def update_conv')

lemma score_formula_any:
  assumes "has_fields a ls ts gs cx act" and "map_of a ''jd_match_score'' = Some v"
  shows "calculate_repo_score (JObj a)
    = and_then (py_float v) (spec_score (spec_base_score (length ls) (length ts) (length gs) cx act))"
  using calculate_repo_score_eq [OF base_score_of_fields [OF assms(1)]] assms(2) by simp

lemma round_to_grid_bounded:
  assumes "\<bar>x\<bar> \<le> 2 ^ 1023"
  shows "round_to_grid x < 2 ^ 1024 \<and> - (2 ^ 1024) < round_to_grid x"
proof -
  have "round_to_grid x \<le> round_to_grid (2 ^ 1023)" using assms by (intro round_to_grid_mono) simp
  then have hi: "round_to_grid x < 2 ^ 1024" using round_to_grid_pow2_1023 by simp
  have "round_to_grid (- x) \<le> round_to_grid (2 ^ 1023)" using assms by (intro round_to_grid_mono) simp
  then have "- (2 ^ 1024) < round_to_grid x"
    using round_to_grid_pow2_1023 by (simp add: round_to_grid_minus)
  with hi show ?thesis by simp
qed

lemma spec_score_returns:
  assumes "0 \<le> b" "b \<le> 100" "to_double q = Finite r"
  shows "\<exists>s. spec_score b (Finite r) = Inr s"
proof -
  define c :: rat where "c = 3602879701896397 / 9007199254740992"
  have r: "\<bar>r\<bar> < 2 ^ 1024" using assms(3) by (auto simp add: to_double_Finite abs_less_iff)
  have "\<bar>r * c\<bar> = \<bar>r\<bar> * c" by (simp add: abs_mult c_def)
  also have "\<dots> \<le> 2 ^ 1024 * c" using r by (intro mult_right_mono) (simp_all add: c_def)
  also have "\<dots> \<le> 2 ^ 1023" by (simp add: c_def)
  finally have "\<bar>r * c\<bar> \<le> 2 ^ 1023" .
  then have "to_double (r * c) = Finite (round_to_grid (r * c))"
    using round_to_grid_bounded [of "r * c"] by (simp add: to_double_Finite)
  then have "fmul (Finite r) (to_double (4 / 10)) = Finite (round_to_grid (r * c))"
    by (simp add: c_def)
  from spec_score_Finite [OF assms(1,2) this] show ?thesis by blast
qed

lemma spec_score_57_85: "spec_score 57 (Finite 85) = Inr 68"
proof -
  have a: "to_double (308046214512141915 / 9007199254740992)
      = Finite (4813222101752217 / 140737488355328)"
    by (rule to_double_eqI [where e = 5 and m = 4813222101752217]) simp_all
  have b: "to_double (306244774661193745 / 9007199254740992) = Finite 34"
    by (rule to_double_eqI [where e = 5 and m = 4785074604081152]) simp_all
  have "round_half_even (9598296705833369 / 140737488355328 / 2 powi (6 - 52)) = 4799148352916684"
    by (rule round_half_even_tie_down) simp_all
  then have c: "to_double (9598296705833369 / 140737488355328)
      = Finite (1199787088229171 / 17592186044416)"
    by (rule to_double_eqI' [where e = 6 and m = 4799148352916684, rotated 3]) simp_all
  have d: "round_half_even (1199787088229171 / 17592186044416) = 68"
    by (rule round_half_even_eqI) simp_all
  show ?thesis by (simp add: spec_score_def a b c d)
qed

lemma spec_score_57_72_5: "spec_score 57 (Finite (145 / 2)) = Inr 63"
proof -
  have a: "to_double (308046214512141915 / 9007199254740992)
      = Finite (4813222101752217 / 140737488355328)"
    by (rule to_double_eqI [where e = 5 and m = 4813222101752217]) simp_all
  have b: "to_double (522417556774977565 / 18014398509481984) = Finite 29"
    by (rule to_double_eqI [where e = 4 and m = 8162774324609024]) simp_all
  have c: "to_double (8894609264056729 / 140737488355328)
      = Finite (8894609264056729 / 140737488355328)"
    by (rule to_double_eqI [where e = 5 and m = 8894609264056729]) simp_all
  have d: "round_half_even (8894609264056729 / 140737488355328) = 63"
    by (rule round_half_even_eqI) simp_all
  show ?thesis by (simp add: spec_score_def a b c d)
qed

lemma double_72_5: "to_double (145 / 2) = Finite (145 / 2)"
  by (rule to_double_eqI [where e = 6 and m = 5101733952880640]) simp_all

lemma subscript_Inl: "subscript (JObj a) k = Inl e \<Longrightarrow> map_of a k = None \<and> e = KeyError k"
  by (simp split: option.splits)

lemma py_len_Inl: "py_len v = Inl e \<Longrightarrow> e = TypeError"
  by (cases v) auto

lemma str_lower_Inl: "str_lower v = Inl e \<Longrightarrow> e = AttributeError"
  by (cases v) auto

lemma and_then_InlE:
  assumes "and_then r f = Inl e"
  obtains "r = Inl e" | v where "r = Inr v" "f v = Inl e"
  using assms by (cases r) simp_all

lemma base_score_of_Inl:
  assumes "base_score_of (JObj a) = Inl e"
  shows "e = TypeError \<or> e = AttributeError
    \<or> (\<exists>k \<in> set [''languages'', ''tech_stack'', ''algorithms'', ''complexity'', ''commit_activity''].
          map_of a k = None \<and> e = KeyError k)"
  using assms unfolding base_score_of_def
  by (elim and_then_InlE)
    (auto dest!: subscript_Inl py_len_Inl str_lower_Inl simp del: subscript.simps)

lemma score_missing_field_error:
  assumes "k \<in> set [''languages'', ''tech_stack'', ''algorithms'', ''complexity'', ''commit_activity'']"
    and "map_of a k = None"
  shows "\<exists>e. calculate_repo_score (JObj a) = Inl e
    \<and> (e = TypeError \<or> e = AttributeError
        \<or> (\<exists>k' \<in> set [''languages'', ''tech_stack'', ''algorithms'', ''complexity'', ''commit_activity''].
              map_of a k' = None \<and> e = KeyError k'))"
proof (cases "base_score_of (JObj a)")
  case (Inl e)
  then have "calculate_repo_score (JObj a) = Inl e" by (simp add: calculate_repo_score_def)
  then show ?thesis using base_score_of_Inl [OF Inl] by blast
next
  case (Inr b)
  then have "\<exists>v1 v2 v3 v4 v5. map_of a ''languages'' = Some v1 \<and> map_of a ''tech_stack'' = Some v2
      \<and> map_of a ''algorithms'' = Some v3 \<and> map_of a ''complexity'' = Some v4
      \<and> map_of a ''commit_activity'' = Some v5"
    unfolding base_score_of_def and_then_Inr_iff subscript_Inr_iff by auto
  then show ?thesis using assms by auto
qed

lemma first_missing_key:
  "map_of a ''languages'' = None \<Longrightarrow> calculate_repo_score (JObj a) = Inl (KeyError ''languages'')"
  "map_of a ''languages'' = Some v1 \<Longrightarrow> py_len v1 = Inr n1 \<Longrightarrow> map_of a ''tech_stack'' = None
     \<Longrightarrow> calculate_repo_score (JObj a) = Inl (KeyError ''tech_stack'')"
  "map_of a ''languages'' = Some v1 \<Longrightarrow> py_len v1 = Inr n1
     \<Longrightarrow> map_of a ''tech_stack'' = Some v2 \<Longrightarrow> py_len v2 = Inr n2
     \<Longrightarrow> map_of a ''algorithms'' = None
     \<Longrightarrow> calculate_repo_score (JObj a) = Inl (KeyError ''algorithms'')"
  "map_of a ''languages'' = Some v1 \<Longrightarrow> py_len v1 = Inr n1
     \<Longrightarrow> map_of a ''tech_stack'' = Some v2 \<Longrightarrow> py_len v2 = Inr n2
     \<Longrightarrow> map_of a ''algorithms'' = Some v3 \<Longrightarrow> py_len v3 = Inr n3
     \<Longrightarrow> map_of a ''complexity'' = None
     \<Longrightarrow> calculate_repo_score (JObj a) = Inl (KeyError ''complexity'')"
  "map_of a ''languages'' = Some v1 \<Longrightarrow> py_len v1 = Inr n1
     \<Longrightarrow> map_of a ''tech_stack'' = Some v2 \<Longrightarrow> py_len v2 = Inr n2
     \<Longrightarrow> map_of a ''algorithms'' = Some v3 \<Longrightarrow> py_len v3 = Inr n3
     \<Longrightarrow> map_of a ''complexity'' = Some v4 \<Longrightarrow> str_lower v4 = Inr k4
     \<Longrightarrow> map_of a ''commit_activity'' = None
     \<Longrightarrow> calculate_repo_score (JObj a) = Inl (KeyError ''commit_activity'')"
  by (simp_all add: calculate_repo_score_def base_score_of_def)

lemma score_without_jd_returns:
  assumes "has_fields a ls ts gs cx act" "map_of a ''jd_match_score'' = None"
  shows "\<exists>s. calculate_repo_score (JObj a) = Inr s"
proof -
  define b where "b = spec_base_score (length ls) (length ts) (length gs) cx act"
  have base: "base_score_of (JObj a) = Inr b"
    using base_score_of_fields [OF assms(1)] by (simp add: b_def)
  have b: "0 \<le> b" "b \<le> 100" using spec_base_score_range by (simp_all add: b_def)
  obtain s where "spec_score b (Finite 0) = Inr s" using spec_score_range [OF b, of 0] by auto
  then show ?thesis
    using calculate_repo_score_eq [OF base] assms(2) by (simp add: float_of_int_small)
qed

lemma ill_typed_record_score: "calculate_repo_score (JObj ill_typed_record) = Inl TypeError"
  by (simp add: calculate_repo_score_def base_score_of_def ill_typed_record_def)

section \<open>The claims\<close>

subsection \<open>The scoring engine\<close>

text \<open>
  C1. For every analysis whose five scored fields are present (three lists, two strings)
  and which has a \<open>jd_match_score\<close>, \<open>calculate_repo_score\<close> is the specification's
  formula: the job-match value converted by \<open>float\<close>, then
  \<open>round(base_score * 0.6 + jd_match_score * 0.4)\<close> with \<open>base_score\<close> the sum of the three
  capped counts and the two tier points, the tiers compared without regard to case and any
  other tier text worth 0.
\<close>

theorem score_formula:
  assumes "has_fields a ls ts gs cx act" and "map_of a ''jd_match_score'' = Some v"
  shows "calculate_repo_score (JObj a)
    = and_then (py_float v) (spec_score (spec_base_score (length ls) (length ts) (length gs) cx act))"
  using calculate_repo_score_eq [OF base_score_of_fields [OF assms(1)]] assms(2) by simp

theorem score_formula_witness:
  "has_fields example_analysis [JStr ''Python'', JStr ''JS''] [JStr ''Flask''] [] ''medium'' ''active''
   \<and> map_of example_analysis ''jd_match_score'' = Some (JInt 80)
   \<and> calculate_repo_score (JObj example_analysis) = Inr 66
   \<and> spec_complexity_points ''HIGH'' = 30 \<and> spec_complexity_points ''extreme'' = 0
   \<and> spec_activity_points ''Inactive'' = 10 \<and> spec_activity_points ''unknown'' = 0"
proof -
  have jd: "map_of example_analysis ''jd_match_score'' = Some (JInt 80)"
    by (simp add: example_analysis_def)
  have "calculate_repo_score (JObj example_analysis) = Inr 66"
    using score_formula [OF example_fields jd]
    by (simp add: example_base float_of_int_small spec_score_57_80)
  moreover have "spec_complexity_points ''HIGH'' = 30 \<and> spec_complexity_points ''extreme'' = 0
      \<and> spec_activity_points ''Inactive'' = 10 \<and> spec_activity_points ''unknown'' = 0"
    by (simp add: spec_complexity_points_def spec_activity_points_def eq_ignore_case_def
        lower_def lower_char_def char_of_eq_iff)
  ultimately show ?thesis using example_fields jd by simp
qed

text \<open>
  C3 as stated fails: a \<open>jd_match_score\<close> that is the text "1-100" (the text the prompt
  shows for this field) makes \<open>calculate_repo_score\<close> raise ValueError.
\<close>

theorem score_unparsable_raises:
  "calculate_repo_score (JObj range_text_analysis) = Inl ValueError"
  by (rule range_text_score)

text \<open>
  C3, amended. With the five scored fields present: when \<open>jd_match_score\<close> is absent
  the score is the blend with a job-match value of 0 and is returned normally; when it is
  a string that \<open>float\<close> cannot parse, \<open>calculate_repo_score\<close> raises ValueError.
\<close>

theorem score_absent_or_unparsable:
  assumes "has_fields a ls ts gs cx act"
  shows "(map_of a ''jd_match_score'' = None \<longrightarrow>
            (\<exists>s. calculate_repo_score (JObj a) = Inr s
               \<and> spec_score (spec_base_score (length ls) (length ts) (length gs) cx act) (Finite 0) = Inr s))
       \<and> (\<forall>str e. map_of a ''jd_match_score'' = Some (JStr str) \<and> float_of_str str = Inl e \<longrightarrow>
            calculate_repo_score (JObj a) = Inl ValueError)"
proof -
  define b where "b = spec_base_score (length ls) (length ts) (length gs) cx act"
  have base: "base_score_of (JObj a) = Inr b"
    using base_score_of_fields [OF assms] by (simp add: b_def)
  have b: "0 \<le> b" "b \<le> 100" using spec_base_score_range by (simp_all add: b_def)
  note eq = calculate_repo_score_eq [OF base]
  have absent: "\<exists>s. calculate_repo_score (JObj a) = Inr s \<and> spec_score b (Finite 0) = Inr s"
    if "map_of a ''jd_match_score'' = None"
  proof -
    obtain s where "spec_score b (Finite 0) = Inr s"
      using spec_score_range [OF b, of 0] by auto
    then show ?thesis using eq that by (simp add: float_of_int_small)
  qed
  have unparsable: "calculate_repo_score (JObj a) = Inl ValueError"
    if "map_of a ''jd_match_score'' = Some (JStr str)" "float_of_str str = Inl e" for str e
    using eq that float_of_str_error [OF that(2)] by simp
  show ?thesis using absent unparsable by (auto simp add: b_def)
qed

theorem score_absent_or_unparsable_witness:
  "has_fields no_jd_analysis [JStr ''Python'', JStr ''JS''] [JStr ''Flask''] [] ''medium'' ''active''
   \<and> map_of no_jd_analysis ''jd_match_score'' = None
   \<and> calculate_repo_score (JObj no_jd_analysis) = Inr 34
   \<and> has_fields range_text_analysis [JStr ''Python'', JStr ''JS''] [JStr ''Flask''] [] ''medium'' ''active''
   \<and> map_of range_text_analysis ''jd_match_score'' = Some (JStr ''1-100'')
   \<and> float_of_str ''1-100'' = Inl ValueError
   \<and> calculate_repo_score (JObj range_text_analysis) = Inl ValueError"
proof -
  have 1: "map_of no_jd_analysis ''jd_match_score'' = None" by (simp add: no_jd_analysis_def)
  have 2: "map_of range_text_analysis ''jd_match_score'' = Some (JStr ''1-100'')"
    by (simp add: range_text_analysis_def)
  have "calculate_repo_score (JObj no_jd_analysis) = Inr 34"
    using score_absent_or_unparsable [OF no_jd_fields] 1 by (simp add: example_base spec_score_57_0)
  moreover have "calculate_repo_score (JObj range_text_analysis) = Inl ValueError"
    using score_absent_or_unparsable [OF range_text_fields] 2 float_of_str_range_text by blast
  ultimately show ?thesis using 1 2 no_jd_fields range_text_fields float_of_str_range_text by simp
qed

text \<open>
  C5 as stated fails: with every list empty, both tiers unknown and a \<open>jd_match_score\<close>
  of 300 the score is 120.
\<close>

theorem score_out_of_range: "calculate_repo_score (JObj out_of_range_analysis) = Inr 120"
  by (rule out_of_range_score)

text \<open>
  C5, amended. Whenever \<open>calculate_repo_score\<close> returns a value, then with \<open>jd\<close> the
  float value of \<open>jd_match_score\<close> (of 0 when the field is absent) both
  \<open>round(0 * 0.6 + jd * 0.4)\<close> and \<open>round(100 * 0.6 + jd * 0.4)\<close> are defined and the value
  lies between them, and it lies in 0..100 when \<open>jd\<close> lies in [0,100]. The job-match score
  is not clamped, and the value can lie outside 0..100: it is 120 for the analysis with
  empty lists, unknown tiers and a \<open>jd_match_score\<close> of 300.
\<close>

theorem score_between:
  assumes "calculate_repo_score (JObj a) = Inr s"
  shows "(\<exists>jd lo hi.
           py_float (case map_of a ''jd_match_score'' of None \<Rightarrow> JInt 0 | Some v \<Rightarrow> v) = Inr jd
           \<and> spec_score 0 jd = Inr lo \<and> spec_score 100 jd = Inr hi \<and> lo \<le> s \<and> s \<le> hi
           \<and> (\<forall>r. jd = Finite r \<and> 0 \<le> r \<and> r \<le> 100 \<longrightarrow> 0 \<le> s \<and> s \<le> 100))
       \<and> calculate_repo_score (JObj out_of_range_analysis) = Inr 120"
proof -
  from assms obtain b where base: "base_score_of (JObj a) = Inr b"
    unfolding calculate_repo_score_def and_then_Inr_iff by auto
  have b: "0 \<le> b" "b \<le> 100" using base_score_of_range [OF base] by simp_all
  from assms calculate_repo_score_eq [OF base] obtain jd where
    jd: "py_float (case map_of a ''jd_match_score'' of None \<Rightarrow> JInt 0 | Some v \<Rightarrow> v) = Inr jd"
    and s: "spec_score b jd = Inr s"
    by (auto simp add: and_then_Inr_iff)
  from spec_score_mono'' [OF _ b(1) b(2) s] obtain lo where lo: "spec_score 0 jd = Inr lo" "lo \<le> s"
    by auto
  from spec_score_mono' [OF b(1) b(2) _ s] obtain hi where hi: "spec_score 100 jd = Inr hi" "s \<le> hi"
    by auto
  have inside: "0 \<le> s \<and> s \<le> 100" if "jd = Finite r" "0 \<le> r" "r \<le> 100" for r
    using spec_score_range [OF b that(2,3)] s that(1) by auto
  show ?thesis using jd lo hi inside out_of_range_score by blast
qed

theorem score_between_witness:
  "calculate_repo_score (JObj out_of_range_analysis) = Inr 120
   \<and> py_float (case map_of out_of_range_analysis ''jd_match_score'' of None \<Rightarrow> JInt 0 | Some v \<Rightarrow> v)
       = Inr (Finite 300)
   \<and> spec_score 0 (Finite 300) = Inr 120 \<and> spec_score 100 (Finite 300) = Inr 180
   \<and> calculate_repo_score (JObj above_range_analysis) = Inr 48
   \<and> py_float (case map_of above_range_analysis ''jd_match_score'' of None \<Rightarrow> JInt 0 | Some v \<Rightarrow> v)
       = Inr (Finite 120)
   \<and> spec_score 0 (Finite 120) = Inr 48 \<and> spec_score 100 (Finite 120) = Inr 108
   \<and> calculate_repo_score (JObj example_analysis) = Inr 66
   \<and> py_float (case map_of example_analysis ''jd_match_score'' of None \<Rightarrow> JInt 0 | Some v \<Rightarrow> v)
       = Inr (Finite 80)
   \<and> (0::rat) \<le> 80 \<and> (80::rat) \<le> 100 \<and> (0::int) \<le> 66 \<and> (66::int) \<le> 100"
proof -
  have f: "py_float (case map_of example_analysis ''jd_match_score'' of None \<Rightarrow> JInt 0 | Some v \<Rightarrow> v)
       = Inr (Finite 80)"
    by (simp add: example_analysis_def float_of_int_small)
  have "0 \<le> (66::int) \<and> (66::int) \<le> 100"
    using score_between [OF example_score] f by auto
  moreover have "py_float (case map_of out_of_range_analysis ''jd_match_score'' of None \<Rightarrow> JInt 0 | Some v \<Rightarrow> v)
       = Inr (Finite 300)"
    by (simp add: out_of_range_analysis_def float_of_int_small)
  moreover have "py_float (case map_of above_range_analysis ''jd_match_score'' of None \<Rightarrow> JInt 0 | Some v \<Rightarrow> v)
       = Inr (Finite 120)"
    by (simp add: above_range_analysis_def float_of_int_small)
  ultimately show ?thesis
    using score_between [OF out_of_range_score] score_between [OF above_range_score]
      out_of_range_score above_range_score example_score f
      spec_score_0_300 spec_score_100_300 spec_score_0_120 spec_score_100_120
    by simp
qed

text \<open>
  C7. For every analysis with the five scored fields present and a \<open>jd_match_score\<close>
  whose float value lies in [0,100], the base score is in 0..100 and
  \<open>calculate_repo_score\<close> returns an integer in 0..100.
\<close>

theorem score_bounded:
  assumes "has_fields a ls ts gs cx act" and "map_of a ''jd_match_score'' = Some v"
    and "py_float v = Inr (Finite r)" and "0 \<le> r" and "r \<le> 100"
  shows "\<exists>b s. base_score_of (JObj a) = Inr b \<and> 0 \<le> b \<and> b \<le> 100
           \<and> calculate_repo_score (JObj a) = Inr s \<and> 0 \<le> s \<and> s \<le> 100"
proof -
  define b where "b = spec_base_score (length ls) (length ts) (length gs) cx act"
  have base: "base_score_of (JObj a) = Inr b"
    using base_score_of_fields [OF assms(1)] by (simp add: b_def)
  have b: "0 \<le> b" "b \<le> 100" using spec_base_score_range by (simp_all add: b_def)
  have "calculate_repo_score (JObj a) = spec_score b (Finite r)"
    using calculate_repo_score_eq [OF base] assms(2,3) by simp
  then show ?thesis using spec_score_range [OF b assms(4,5)] base b by auto
qed

theorem score_bounded_witness:
  "has_fields example_analysis [JStr ''Python'', JStr ''JS''] [JStr ''Flask''] [] ''medium'' ''active''
   \<and> map_of example_analysis ''jd_match_score'' = Some (JInt 80)
   \<and> py_float (JInt 80) = Inr (Finite 80) \<and> (0::rat) \<le> 80 \<and> (80::rat) \<le> 100
   \<and> (\<exists>b s. base_score_of (JObj example_analysis) = Inr b \<and> 0 \<le> b \<and> b \<le> 100
           \<and> calculate_repo_score (JObj example_analysis) = Inr s \<and> 0 \<le> s \<and> s \<le> 100)"
proof -
  have jd: "map_of example_analysis ''jd_match_score'' = Some (JInt 80)"
    by (simp add: example_analysis_def)
  have f: "py_float (JInt 80) = Inr (Finite 80)" by (simp add: float_of_int_small)
  show ?thesis using score_bounded [OF example_fields jd f] example_fields jd f by simp
qed

text \<open>
  C8. When the \<open>tech_stack\<close> of an analysis is a list of fewer than five elements and
  \<open>calculate_repo_score\<close> returns a score, it also returns a score, and no smaller
  one, for the analysis with one more element in \<open>tech_stack\<close> and every other field
  unchanged.
\<close>

theorem tech_stack_monotone:
  assumes "map_of a ''tech_stack'' = Some (JArr ts)" and "length ts < 5"
    and "map_of a' = (map_of a)(''tech_stack'' \<mapsto> JArr (ts @ [t]))"
    and "calculate_repo_score (JObj a) = Inr s"
  shows "\<exists>s'. calculate_repo_score (JObj a') = Inr s' \<and> s \<le> s'"
proof -
  from assms(4) obtain b where base: "base_score_of (JObj a) = Inr b"
    unfolding calculate_repo_score_def and_then_Inr_iff by auto
  from base_score_of_tech_stack [OF assms(1,3) base] obtain b' where
    base': "base_score_of (JObj a') = Inr b'" and le: "b \<le> b'" by auto
  have b: "0 \<le> b" "b \<le> 100" using base_score_of_range [OF base] by simp_all
  have b': "0 \<le> b'" "b' \<le> 100" using base_score_of_range [OF base'] by simp_all
  define v where "v = (case map_of a ''jd_match_score'' of None \<Rightarrow> JInt 0 | Some v \<Rightarrow> v)"
  have same: "(case map_of a' ''jd_match_score'' of None \<Rightarrow> JInt 0 | Some v \<Rightarrow> v) = v"
    by (simp add: assms(3) v_def)
  have s: "calculate_repo_score (JObj a) = and_then (py_float v) (spec_score b)"
    using calculate_repo_score_eq [OF base] by (simp add: v_def)
  have s': "calculate_repo_score (JObj a') = and_then (py_float v) (spec_score b')"
    using calculate_repo_score_eq [OF base'] by (simp add: same)
  from assms(4) s obtain jd where jd: "py_float v = Inr jd" "spec_score b jd = Inr s"
    by (auto simp add: and_then_Inr_iff)
  from spec_score_Inr_jd [OF b jd(2)] obtain j where j: "fmul jd (to_double (4 / 10)) = Finite j" ..
  from spec_score_mono [OF b(1) le b'(2) j] jd(2) s' jd(1) show ?thesis by auto
qed

theorem tech_stack_monotone_witness:
  "map_of example_analysis ''tech_stack'' = Some (JArr [JStr ''Flask''])
   \<and> length [JStr ''Flask''] < 5
   \<and> map_of example_analysis_more = (map_of example_analysis)(''tech_stack'' \<mapsto> JArr ([JStr ''Flask''] @ [JStr ''Redis'']))
   \<and> calculate_repo_score (JObj example_analysis) = Inr 66
   \<and> (\<exists>s'. calculate_repo_score (JObj example_analysis_more) = Inr s' \<and> 66 \<le> s')"
proof -
  have 1: "map_of example_analysis ''tech_stack'' = Some (JArr [JStr ''Flask''])"
    by (simp add: example_analysis_def)
  have 2: "length [JStr ''Flask''] < 5" by simp
  have 3: "map_of example_analysis_more
      = (map_of example_analysis)(''tech_stack'' \<mapsto> JArr ([JStr ''Flask''] @ [JStr ''Redis'']))"
    by (rule ext) (simp add: example_analysis_def example_analysis_more_def)
  show ?thesis using tech_stack_monotone [OF 1 2 3 example_score] 1 2 3 example_score by simp
qed

text \<open>
  C10. Let the five scored fields of an analysis be present. A \<open>jd_match_score\<close> that
  is a string of decimal digits is converted by \<open>float\<close> to the binary64 value of the
  integer it spells, and a string of digits, a point and digits to the binary64 value of
  that decimal. The score is then \<open>round(base_score * 0.6 + jd * 0.4)\<close> with that value
  as \<open>jd\<close>, which is also the score of the analysis that carries the integer, or the
  float, itself; and the score is returned whenever the value is within the float range.
\<close>

theorem numeric_string_coerced:
  assumes "ds \<noteq> []" and "list_all is_digit ds" and "list_all is_digit fs"
    and "has_fields a ls ts gs cx act"
  shows "py_float (JStr ds) = Inr (to_double (of_nat (digits_val ds)))
     \<and> py_float (JStr (ds @ CHR ''.'' # fs))
         = Inr (to_double (of_nat (digits_val (ds @ fs)) / 10 ^ length fs))
     \<and> calculate_repo_score (JObj (AList.update ''jd_match_score'' (JStr ds) a))
         = spec_score (spec_base_score (length ls) (length ts) (length gs) cx act)
             (to_double (of_nat (digits_val ds)))
     \<and> calculate_repo_score (JObj (AList.update ''jd_match_score'' (JInt (int (digits_val ds))) a))
         = spec_score (spec_base_score (length ls) (length ts) (length gs) cx act)
             (to_double (of_nat (digits_val ds)))
     \<and> calculate_repo_score (JObj (AList.update ''jd_match_score'' (JStr (ds @ CHR ''.'' # fs)) a))
         = spec_score (spec_base_score (length ls) (length ts) (length gs) cx act)
             (to_double (of_nat (digits_val (ds @ fs)) / 10 ^ length fs))
     \<and> calculate_repo_score (JObj (AList.update ''jd_match_score''
           (JFloat (to_double (of_nat (digits_val (ds @ fs)) / 10 ^ length fs))) a))
         = spec_score (spec_base_score (length ls) (length ts) (length gs) cx act)
             (to_double (of_nat (digits_val (ds @ fs)) / 10 ^ length fs))
     \<and> (\<forall>r. to_double (of_nat (digits_val ds)) = Finite r \<longrightarrow>
           (\<exists>s. calculate_repo_score (JObj (AList.update ''jd_match_score'' (JStr ds) a)) = Inr s))
     \<and> (\<forall>r. to_double (of_nat (digits_val (ds @ fs)) / 10 ^ length fs) = Finite r \<longrightarrow>
           (\<exists>s. calculate_repo_score
                  (JObj (AList.update ''jd_match_score'' (JStr (ds @ CHR ''.'' # fs)) a)) = Inr s))"
proof -
  define b where "b = spec_base_score (length ls) (length ts) (length gs) cx act"
  define n :: rat where "n = of_nat (digits_val ds)"
  define q :: rat where "q = of_nat (digits_val (ds @ fs)) / 10 ^ length fs"
  have b: "0 \<le> b" "b \<le> 100" using spec_base_score_range by (simp_all add: b_def)
  have score: "calculate_repo_score (JObj (AList.update ''jd_match_score'' v a))
      = and_then (py_float v) (spec_score b)" for v
    using score_formula_any [OF has_fields_update_jd [OF assms(4)], of v v]
    by (simp add: b_def update_conv')
  have 1: "py_float (JStr ds) = Inr (to_double n)"
    by (simp add: float_of_str_digits [OF assms(1,2)] n_def)
  have 2: "py_float (JStr (ds @ CHR ''.'' # fs)) = Inr (to_double q)"
    by (simp add: float_of_str_point [OF assms(1-3)] q_def)
  have 3: "calculate_repo_score (JObj (AList.update ''jd_match_score'' (JStr ds) a))
      = spec_score b (to_double n)"
    by (simp only: score 1 and_then_simps)
  have 4: "calculate_repo_score (JObj (AList.update ''jd_match_score'' (JInt (int (digits_val ds))) a))
      = spec_score b (to_double n)"
    using float_of_int_spec_score [OF b, of "int (digits_val ds)"] by (simp add: score n_def)
  have 5: "calculate_repo_score (JObj (AList.update ''jd_match_score'' (JStr (ds @ CHR ''.'' # fs)) a))
      = spec_score b (to_double q)"
    by (simp only: score 2 and_then_simps)
  have 6: "calculate_repo_score (JObj (AList.update ''jd_match_score'' (JFloat (to_double q)) a))
      = spec_score b (to_double q)"
    by (simp add: score)
  have 7: "\<exists>s. calculate_repo_score (JObj (AList.update ''jd_match_score'' (JStr ds) a)) = Inr s"
    if "to_double n = Finite r" for r
    using spec_score_returns [OF b that] by (simp add: 3 that)
  have 8: "\<exists>s. calculate_repo_score
      (JObj (AList.update ''jd_match_score'' (JStr (ds @ CHR ''.'' # fs)) a)) = Inr s"
    if "to_double q = Finite r" for r
    using spec_score_returns [OF b that] by (simp add: 5 that)
  show ?thesis
    unfolding b_def [symmetric] n_def [symmetric] q_def [symmetric]
    using 1 2 3 4 5 6 7 8 by blast
qed

theorem numeric_string_coerced_witness:
  "''85'' \<noteq> [] \<and> list_all is_digit ''85'' \<and> ''72'' \<noteq> [] \<and> list_all is_digit ''72''
   \<and> list_all is_digit ''5'' \<and> list_all is_digit ''''
   \<and> has_fields example_analysis [JStr ''Python'', JStr ''JS''] [JStr ''Flask''] [] ''medium'' ''active''
   \<and> py_float (JStr ''85'') = Inr (Finite 85)
   \<and> py_float (JStr ''72.5'') = Inr (Finite (145 / 2))
   \<and> calculate_repo_score (JObj (AList.update ''jd_match_score'' (JStr ''85'') example_analysis)) = Inr 68
   \<and> calculate_repo_score (JObj (AList.update ''jd_match_score'' (JInt 85) example_analysis)) = Inr 68
   \<and> calculate_repo_score (JObj (AList.update ''jd_match_score'' (JStr ''72.5'') example_analysis)) = Inr 63
   \<and> calculate_repo_score (JObj (AList.update ''jd_match_score'' (JFloat (Finite (145 / 2))) example_analysis))
       = Inr 63"
proof -
  have d: "list_all is_digit ''85''" "list_all is_digit ''72''" "list_all is_digit ''5''"
    "list_all is_digit ''''"
    by (simp_all add: is_digit_def)
  have ne: "''85'' \<noteq> []" "''72'' \<noteq> []" by simp_all
  have v: "(of_nat (digits_val ''85'') :: rat) = 85" "int (digits_val ''85'') = 85"
    "(of_nat (digits_val (''72'' @ ''5'')) / 10 ^ length ''5'' :: rat) = 145 / 2"
    by (simp_all add: digits_val_def digit_val_def)
  have e: "to_double 85 = Finite 85" using to_double_of_int [of 85] by simp
  have S: "''72'' @ CHR ''.'' # ''5'' = ''72.5''" by simp
  have L: "length [JStr ''Python'', JStr ''JS''] = Suc (Suc 0)" "length [JStr ''Flask''] = Suc 0"
    "length ([] :: json list) = 0"
    by simp_all
  note A = numeric_string_coerced [OF ne(1) d(1) d(4) example_fields]
  note B = numeric_string_coerced [OF ne(2) d(2) d(3) example_fields]
  have 1: "py_float (JStr ''85'') = Inr (Finite 85)"
    using A [THEN conjunct1] by (simp only: v e)
  have 2: "calculate_repo_score (JObj (AList.update ''jd_match_score'' (JStr ''85'') example_analysis))
      = Inr 68"
    using A [THEN conjunct2, THEN conjunct2, THEN conjunct1]
    by (simp only: v e L example_base spec_score_57_85)
  have 3: "calculate_repo_score (JObj (AList.update ''jd_match_score'' (JInt 85) example_analysis))
      = Inr 68"
    using A [THEN conjunct2, THEN conjunct2, THEN conjunct2, THEN conjunct1]
    by (simp only: v e L example_base spec_score_57_85)
  have 4: "py_float (JStr ''72.5'') = Inr (Finite (145 / 2))"
    using B [THEN conjunct2, THEN conjunct1] by (simp only: S v double_72_5)
  have 5: "calculate_repo_score (JObj (AList.update ''jd_match_score'' (JStr ''72.5'') example_analysis))
      = Inr 63"
    using B [THEN conjunct2, THEN conjunct2, THEN conjunct2, THEN conjunct2, THEN conjunct1]
    by (simp only: S v double_72_5 L example_base spec_score_57_72_5)
  have 6: "calculate_repo_score
      (JObj (AList.update ''jd_match_score'' (JFloat (Finite (145 / 2))) example_analysis)) = Inr 63"
    using B [THEN conjunct2, THEN conjunct2, THEN conjunct2, THEN conjunct2, THEN conjunct2,
        THEN conjunct1]
    by (simp only: S v double_72_5 L example_base spec_score_57_72_5)
  show ?thesis using d ne example_fields 1 2 3 4 5 6 by simp
qed

subsection \<open>The candidate evaluator\<close>

text \<open>
  C2. For every positive number of repositories and every total score,
  \<open>evaluate_candidate\<close> computes the average with Python's \<open>/\<close> and labels it by the
  thresholds 75, 50 and 25, each threshold belonging to the higher tier: a total of exactly
  75, 50 or 25 times the count gets the higher label, and for an integer total and up to
  \<open>2^46\<close> repositories the label is the one the exact quotient gives.
\<close>

theorem evaluate_tiers:
  assumes "0 < n"
  shows "evaluate_candidate t n = and_then (truediv t n) (\<lambda>avg. Inr (spec_label avg))
    \<and> evaluate_candidate (PyInt (75 * n)) n = Inr ''Highly Suitable''
    \<and> evaluate_candidate (PyInt (50 * n)) n = Inr ''Moderately Suitable''
    \<and> evaluate_candidate (PyInt (25 * n)) n = Inr ''Potentially Suitable''
    \<and> (n \<le> 2 ^ 46 \<longrightarrow> (\<forall>ti. \<bar>ti\<bar> \<le> 2 ^ 1023 \<longrightarrow>
          evaluate_candidate (PyInt ti) n =
            Inr (if 75 * n \<le> ti then ''Highly Suitable''
                 else if 50 * n \<le> ti then ''Moderately Suitable''
                 else if 25 * n \<le> ti then ''Potentially Suitable''
                 else ''Not Suitable'')))"
proof -
  have n0: "n \<noteq> 0" using assms by simp
  have 1: "evaluate_candidate t n = and_then (truediv t n) (\<lambda>avg. Inr (spec_label avg))"
    using n0 by (rule evaluate_candidate_eq)
  have 2: "evaluate_candidate (PyInt (75 * n)) n = Inr ''Highly Suitable''"
    using truediv_multiple [OF assms, of 75] n0 by (simp add: evaluate_candidate_eq spec_label_def)
  have 3: "evaluate_candidate (PyInt (50 * n)) n = Inr ''Moderately Suitable''"
    using truediv_multiple [OF assms, of 50] n0 by (simp add: evaluate_candidate_eq spec_label_def)
  have 4: "evaluate_candidate (PyInt (25 * n)) n = Inr ''Potentially Suitable''"
    using truediv_multiple [OF assms, of 25] n0 by (simp add: evaluate_candidate_eq spec_label_def)
  show ?thesis using 1 2 3 4 evaluate_int_exact [OF assms] by simp
qed

theorem evaluate_tiers_witness:
  "(0::int) < 5
   \<and> to_double (3749 / 10) = Finite (3297655274025779 / 8796093022208)
   \<and> evaluate_candidate (PyInt 375) 5 = Inr ''Highly Suitable''
   \<and> evaluate_candidate (PyFloat (Finite (3297655274025779 / 8796093022208))) 5 = Inr ''Moderately Suitable''
   \<and> evaluate_candidate (PyInt 250) 5 = Inr ''Moderately Suitable''
   \<and> evaluate_candidate (PyInt 125) 5 = Inr ''Potentially Suitable''
   \<and> evaluate_candidate (PyInt 124) 5 = Inr ''Not Suitable''"
proof -
  have h: "(0::int) < 5" by simp
  have a: "evaluate_candidate (PyInt 375) 5 = Inr ''Highly Suitable''"
    using evaluate_tiers [OF h, of "PyInt 0"] by simp
  have b: "evaluate_candidate (PyFloat (Finite (3297655274025779 / 8796093022208))) 5
      = Inr ''Moderately Suitable''"
    using evaluate_tiers [OF h, of "PyFloat (Finite (3297655274025779 / 8796093022208))", THEN conjunct1]
    by (simp only: truediv_374_9 and_then_simps) (simp add: spec_label_def)
  have c: "evaluate_candidate (PyInt 250) 5 = Inr ''Moderately Suitable''"
    using evaluate_tiers [OF h, of "PyInt 0"] by simp
  have d: "evaluate_candidate (PyInt 125) 5 = Inr ''Potentially Suitable''"
    using evaluate_tiers [OF h, of "PyInt 0"] by simp
  have e: "evaluate_candidate (PyInt 124) 5 = Inr ''Not Suitable''"
    using evaluate_tiers [OF h, of "PyInt 0", THEN conjunct2, THEN conjunct2, THEN conjunct2,
        THEN conjunct2, rule_format, of 124]
    by simp
  show ?thesis using a b c d e float_374_9 by simp
qed

text \<open>
  C6. For every total score, \<open>evaluate_candidate\<close> on zero repositories returns the
  text "Unable to evaluate - no repositories found", which is none of the four suitability
  labels; it returns it without dividing, although the division it skips would raise
  ZeroDivisionError.
\<close>

theorem evaluate_no_repositories:
  "evaluate_candidate total_score 0 = Inr ''Unable to evaluate - no repositories found''
   \<and> ''Unable to evaluate - no repositories found'' \<noteq> ''Highly Suitable''
   \<and> ''Unable to evaluate - no repositories found'' \<noteq> ''Moderately Suitable''
   \<and> ''Unable to evaluate - no repositories found'' \<noteq> ''Potentially Suitable''
   \<and> ''Unable to evaluate - no repositories found'' \<noteq> ''Not Suitable''
   \<and> truediv total_score 0 = Inl ZeroDivisionError"
  by (cases total_score) (simp_all add: evaluate_candidate_def and_then_def)

subsection \<open>The parsing contract\<close>

text \<open>
  C4 as stated fails: an answer that parses but leaves out \<open>algorithms\<close> reaches
  \<open>calculate_repo_score\<close> as it was parsed, and the score raises KeyError.
\<close>

theorem missing_field_raises:
  "calculate_repo_score (analyze_repo_and_jd_match loads_sample (Inr partial_answer))
     = Inl (KeyError ''algorithms'')"
  by (simp add: analyze_repo_and_jd_match_def json_text_partial_answer loads_sample_def
      partial_record_score)

text \<open>
  C4, amended. An answer that parses is returned exactly as parsed: no missing field is
  replaced by a default. \<open>calculate_repo_score\<close> on a parsed record that lacks
  \<open>languages\<close>, \<open>tech_stack\<close>, \<open>algorithms\<close>, \<open>complexity\<close> or \<open>commit_activity\<close>
  raises: KeyError for a missing one of these fields, or TypeError or AttributeError from a
  field of the wrong type that is read earlier; it is KeyError for the first missing field
  when \<open>len\<close> and \<open>lower\<close> succeed on the fields read before it. A record that has these
  five fields and lacks only \<open>jd_match_score\<close> is scored without an error.
\<close>

theorem parsed_record_unchanged:
  "(loads (json_text response) = Inr d \<longrightarrow> analyze_repo_and_jd_match loads (Inr response) = d)
   \<and> (k \<in> set [''languages'', ''tech_stack'', ''algorithms'', ''complexity'', ''commit_activity'']
        \<and> map_of a k = None \<longrightarrow>
        (\<exists>e. calculate_repo_score (JObj a) = Inl e
          \<and> (e = TypeError \<or> e = AttributeError
              \<or> (\<exists>k' \<in> set [''languages'', ''tech_stack'', ''algorithms'', ''complexity'',
                              ''commit_activity''].
                    map_of a k' = None \<and> e = KeyError k'))))
   \<and> (map_of a ''languages'' = None \<longrightarrow>
        calculate_repo_score (JObj a) = Inl (KeyError ''languages''))
   \<and> (map_of a ''languages'' = Some v1 \<and> py_len v1 = Inr n1
        \<and> map_of a ''tech_stack'' = None \<longrightarrow>
        calculate_repo_score (JObj a) = Inl (KeyError ''tech_stack''))
   \<and> (map_of a ''languages'' = Some v1 \<and> py_len v1 = Inr n1
        \<and> map_of a ''tech_stack'' = Some v2 \<and> py_len v2 = Inr n2
        \<and> map_of a ''algorithms'' = None \<longrightarrow>
        calculate_repo_score (JObj a) = Inl (KeyError ''algorithms''))
   \<and> (map_of a ''languages'' = Some v1 \<and> py_len v1 = Inr n1
        \<and> map_of a ''tech_stack'' = Some v2 \<and> py_len v2 = Inr n2
        \<and> map_of a ''algorithms'' = Some v3 \<and> py_len v3 = Inr n3
        \<and> map_of a ''complexity'' = None \<longrightarrow>
        calculate_repo_score (JObj a) = Inl (KeyError ''complexity''))
   \<and> (map_of a ''languages'' = Some v1 \<and> py_len v1 = Inr n1
        \<and> map_of a ''tech_stack'' = Some v2 \<and> py_len v2 = Inr n2
        \<and> map_of a ''algorithms'' = Some v3 \<and> py_len v3 = Inr n3
        \<and> map_of a ''complexity'' = Some v4 \<and> str_lower v4 = Inr k4
        \<and> map_of a ''commit_activity'' = None \<longrightarrow>
        calculate_repo_score (JObj a) = Inl (KeyError ''commit_activity''))
   \<and> (has_fields a ls ts gs cx act \<and> map_of a ''jd_match_score'' = None \<longrightarrow>
        (\<exists>s. calculate_repo_score (JObj a) = Inr s))"
proof (intro conjI impI; (elim conjE)?)
  assume "loads (json_text response) = Inr d"
  then show "analyze_repo_and_jd_match loads (Inr response) = d"
    by (simp add: analyze_repo_and_jd_match_def)
next
  assume "k \<in> set [''languages'', ''tech_stack'', ''algorithms'', ''complexity'', ''commit_activity'']"
    and "map_of a k = None"
  then show "\<exists>e. calculate_repo_score (JObj a) = Inl e
          \<and> (e = TypeError \<or> e = AttributeError
              \<or> (\<exists>k' \<in> set [''languages'', ''tech_stack'', ''algorithms'', ''complexity'',
                              ''commit_activity''].
                    map_of a k' = None \<and> e = KeyError k'))"
    by (rule score_missing_field_error)
next
  assume "map_of a ''languages'' = None"
  then show "calculate_repo_score (JObj a) = Inl (KeyError ''languages'')"
    by (rule first_missing_key(1))
next
  assume "map_of a ''languages'' = Some v1" "py_len v1 = Inr n1" "map_of a ''tech_stack'' = None"
  then show "calculate_repo_score (JObj a) = Inl (KeyError ''tech_stack'')"
    by (rule first_missing_key(2))
next
  assume "map_of a ''languages'' = Some v1" "py_len v1 = Inr n1"
    "map_of a ''tech_stack'' = Some v2" "py_len v2 = Inr n2" "map_of a ''algorithms'' = None"
  then show "calculate_repo_score (JObj a) = Inl (KeyError ''algorithms'')"
    by (rule first_missing_key(3))
next
  assume "map_of a ''languages'' = Some v1" "py_len v1 = Inr n1"
    "map_of a ''tech_stack'' = Some v2" "py_len v2 = Inr n2"
    "map_of a ''algorithms'' = Some v3" "py_len v3 = Inr n3" "map_of a ''complexity'' = None"
  then show "calculate_repo_score (JObj a) = Inl (KeyError ''complexity'')"
    by (rule first_missing_key(4))
next
  assume "map_of a ''languages'' = Some v1" "py_len v1 = Inr n1"
    "map_of a ''tech_stack'' = Some v2" "py_len v2 = Inr n2"
    "map_of a ''algorithms'' = Some v3" "py_len v3 = Inr n3"
    "map_of a ''complexity'' = Some v4" "str_lower v4 = Inr k4"
    "map_of a ''commit_activity'' = None"
  then show "calculate_repo_score (JObj a) = Inl (KeyError ''commit_activity'')"
    by (rule first_missing_key(5))
next
  assume "has_fields a ls ts gs cx act" "map_of a ''jd_match_score'' = None"
  then show "\<exists>s. calculate_repo_score (JObj a) = Inr s"
    by (rule score_without_jd_returns)
qed

theorem parsed_record_unchanged_witness:
  "loads_sample (json_text partial_answer) = Inr (JObj partial_record)
   \<and> analyze_repo_and_jd_match loads_sample (Inr partial_answer) = JObj partial_record
   \<and> map_of partial_record ''languages'' = Some (JArr [JStr ''Python''])
   \<and> py_len (JArr [JStr ''Python'']) = Inr 1
   \<and> map_of partial_record ''tech_stack'' = Some (JArr []) \<and> py_len (JArr []) = Inr 0
   \<and> map_of partial_record ''algorithms'' = None
   \<and> calculate_repo_score (JObj partial_record) = Inl (KeyError ''algorithms'')
   \<and> ''tech_stack'' \<in> set [''languages'', ''tech_stack'', ''algorithms'', ''complexity'', ''commit_activity'']
   \<and> map_of ill_typed_record ''tech_stack'' = None
   \<and> calculate_repo_score (JObj ill_typed_record) = Inl TypeError
   \<and> has_fields no_jd_analysis [JStr ''Python'', JStr ''JS''] [JStr ''Flask''] [] ''medium'' ''active''
   \<and> map_of no_jd_analysis ''jd_match_score'' = None
   \<and> (\<exists>s. calculate_repo_score (JObj no_jd_analysis) = Inr s)"
proof -
  have 1: "loads_sample (json_text partial_answer) = Inr (JObj partial_record)"
    by (simp add: json_text_partial_answer loads_sample_def)
  have 2: "map_of partial_record ''languages'' = Some (JArr [JStr ''Python''])"
    "py_len (JArr [JStr ''Python'']) = Inr 1"
    "map_of partial_record ''tech_stack'' = Some (JArr [])" "py_len (JArr []) = Inr 0"
    "map_of partial_record ''algorithms'' = None"
    by (simp_all add: partial_record_def)
  have 3: "''tech_stack'' \<in> set [''languages'', ''tech_stack'', ''algorithms'', ''complexity'', ''commit_activity'']"
    "map_of ill_typed_record ''tech_stack'' = None"
    by (simp_all add: ill_typed_record_def)
  have 4: "map_of no_jd_analysis ''jd_match_score'' = None" by (simp add: no_jd_analysis_def)
  note T = parsed_record_unchanged [of loads_sample partial_answer "JObj partial_record"
      "''algorithms''" partial_record "JArr [JStr ''Python'']" 1 "JArr []" 0]
  have a: "analyze_repo_and_jd_match loads_sample (Inr partial_answer) = JObj partial_record"
    using T [THEN conjunct1] 1 by (rule mp)
  have b: "calculate_repo_score (JObj partial_record) = Inl (KeyError ''algorithms'')"
    using T [THEN conjunct2, THEN conjunct2, THEN conjunct2, THEN conjunct2, THEN conjunct1] 2
    by simp
  have c: "\<exists>s. calculate_repo_score (JObj no_jd_analysis) = Inr s"
    using parsed_record_unchanged [of _ _ _ _ no_jd_analysis _ _ _ _ _ _ _ _
        "[JStr ''Python'', JStr ''JS'']" "[JStr ''Flask'']" "[]" "''medium''" "''active''",
        THEN conjunct2, THEN conjunct2, THEN conjunct2, THEN conjunct2, THEN conjunct2,
        THEN conjunct2, THEN conjunct2]
      no_jd_fields 4 by simp
  show ?thesis
    by (intro conjI 1 2 3 4 a b c no_jd_fields ill_typed_record_score)
qed

text \<open>
  C9. When the answer has a first \<open>{\<close> before its last \<open>}\<close>, the text handed to
  \<open>json.loads\<close> is the answer from that \<open>{\<close> through that \<open>}\<close>. When
  \<open>json.loads\<close> rejects the text, or the call of the model raised, the result is exactly
  the default analysis: empty \<open>languages\<close>, \<open>tech_stack\<close>, \<open>algorithms\<close> and
  \<open>jd_match_reasons\<close>, complexity and commit activity "unknown", and a
  \<open>jd_match_score\<close> of 0.
\<close>

theorem analyzer_parsing_contract:
  "(CHR ''{'' \<notin> set pre \<and> CHR ''}'' \<notin> set post \<longrightarrow>
      json_text (pre @ CHR ''{'' # mid @ CHR ''}'' # post) = CHR ''{'' # mid @ [CHR ''}''])
   \<and> analyze_repo_and_jd_match loads (Inr response)
       = (case loads (json_text response) of Inl e \<Rightarrow> default_analysis | Inr json_data \<Rightarrow> json_data)
   \<and> analyze_repo_and_jd_match loads (Inl e) = default_analysis
   \<and> default_analysis = JObj
       [(''languages'', JArr []), (''tech_stack'', JArr []), (''algorithms'', JArr []),
        (''complexity'', JStr ''unknown''), (''commit_activity'', JStr ''unknown''),
        (''jd_match_score'', JInt 0), (''jd_match_reasons'', JArr [])]"
  using json_text_braces [of pre post mid]
  by (simp add: analyze_repo_and_jd_match_def default_analysis_def del: append.simps)

theorem analyzer_parsing_contract_witness:
  "CHR ''{'' \<notin> set ''Result: '' \<and> CHR ''}'' \<notin> set '' (end)''
   \<and> json_text (''Result: '' @ CHR ''{'' # ''a{b}c'' @ CHR ''}'' # '' (end)'')
       = CHR ''{'' # ''a{b}c'' @ [CHR ''}'']
   \<and> analyze_repo_and_jd_match loads_sample (Inr ''no json here'') = default_analysis
   \<and> analyze_repo_and_jd_match loads_sample (Inl RuntimeError) = default_analysis"
proof -
  have 1: "CHR ''{'' \<notin> set ''Result: ''" "CHR ''}'' \<notin> set '' (end)''" by simp_all
  note c = analyzer_parsing_contract [of "''Result: ''" "'' (end)''" "''a{b}c''"
      loads_sample "''no json here''" RuntimeError]
  have 2: "json_text (''Result: '' @ CHR ''{'' # ''a{b}c'' @ CHR ''}'' # '' (end)'')
       = CHR ''{'' # ''a{b}c'' @ [CHR ''}'']"
    using c 1 by blast
  have t: "json_text ''no json here'' = []"
    by (simp add: json_text_def slice_def slice_bound_def strip_def)
  have 3: "analyze_repo_and_jd_match loads_sample (Inr ''no json here'') = default_analysis"
    using c by (simp add: t loads_sample_def partial_answer_def)
  have 4: "analyze_repo_and_jd_match loads_sample (Inl RuntimeError) = default_analysis"
    using c by blast
  show ?thesis using 1 2 3 4 by blast
qed

end
